theory Spec2Isabelle
  imports Main
begin

section \<open>Data model of configmaster (main.go)\<close>

text \<open>
  The debounce key of the change debouncer: \<^verbatim>\<open>type ChangeType struct { Type string; Name string }\<close>.
\<close>

record ChangeType =
  Type :: string
  Name :: string

text \<open>
  The debounce key of the update debouncer:
  \<^verbatim>\<open>type Deployment struct { Name string; Options meta.GetOptions }\<close>.
  \<^verbatim>\<open>queueDeployment\<close> fills \<^verbatim>\<open>Options\<close> with the resource version only, every other
  field of \<^verbatim>\<open>meta.GetOptions\<close> keeps its zero value, so the key is the pair below.
\<close>

record Deployment =
  dep_Name :: string
  dep_ResourceVersion :: string

text \<open>
  The part of the Kubernetes objects that the program reads or writes. A pointer to a
  reference (\<^verbatim>\<open>*ConfigMapEnvSource\<close>, \<^verbatim>\<open>*SecretKeySelector\<close>, ...) is an option
  holding the \<^verbatim>\<open>Name\<close> of the referenced object; \<open>None\<close> is \<^verbatim>\<open>nil\<close>.
\<close>

record EnvFromSource =
  ConfigMapRef :: "string option"
  SecretRef :: "string option"

record EnvVarSource =
  ConfigMapKeyRef :: "string option"
  SecretKeyRef :: "string option"

record EnvVar =
  ValueFrom :: "EnvVarSource option"

record Container =
  EnvFrom :: "EnvFromSource list"
  Env :: "EnvVar list"

text \<open>
  \<^verbatim>\<open>apps.Deployment\<close>: \<open>Annotations\<close> is \<^verbatim>\<open>ObjectMeta.Annotations\<close>,
  \<open>TemplateAnnotations\<close> is \<^verbatim>\<open>Spec.Template.Annotations\<close> (\<open>None\<close> is the nil map),
  \<open>Containers\<close> and \<open>InitContainers\<close> are those of \<^verbatim>\<open>Spec.Template.Spec\<close>, and
  \<open>Other\<close> stands for every remaining field, which the program never touches.
\<close>

record apps_Deployment =
  obj_Name :: string
  obj_ResourceVersion :: string
  Annotations :: "(string \<rightharpoonup> string) option"
  TemplateAnnotations :: "(string \<rightharpoonup> string) option"
  Containers :: "Container list"
  InitContainers :: "Container list"
  Other :: string

datatype error = Error string

fun message :: "error \<Rightarrow> string" where
  "message (Error m) = m"

text \<open>
  What the process does that is visible from outside, each stamped with the time at which
  it happens: log lines, calls of the cluster API, a panic; and the entry of the two
  timer callbacks' handlers, \<^verbatim>\<open>findAndQueueDeployments\<close> and \<^verbatim>\<open>patchDeployment\<close>.
\<close>

datatype effect =
    Log string
  | Call_findAndQueueDeployments ChangeType
  | Call_patchDeployment Deployment
  | Api_List
  | Api_Get string string
  | Api_Patch string string
  | Panic string

text \<open>
  The external collaborators: the cluster API (each answer a function of the time of the
  call), \<^verbatim>\<open>json.Marshal\<close>, \<^verbatim>\<open>strategicpatch.CreateTwoWayMergePatch\<close> and the
  formatting of the wall clock by \<^verbatim>\<open>time.Now().Format(time.RFC3339)\<close>.
\<close>

record api =
  List :: "nat \<Rightarrow> error + apps_Deployment list"
  Get :: "nat \<Rightarrow> string \<Rightarrow> string \<Rightarrow> error + apps_Deployment"
  Marshal :: "apps_Deployment \<Rightarrow> error + string"
  CreateTwoWayMergePatch :: "string \<Rightarrow> string \<Rightarrow> error + string"
  Patch :: "nat \<Rightarrow> string \<Rightarrow> string \<Rightarrow> error + unit"
  RFC3339 :: "nat \<Rightarrow> string"

text \<open>
  A \<^verbatim>\<open>*time.Timer\<close> made by \<^verbatim>\<open>time.AfterFunc\<close>: \<open>when\<close> is the instant at which it
  fires (\<open>None\<close> once it has fired), \<open>captured\<close> the variable its function literal closes
  over. Timers live in a heap and a pointer is an index into it; the timers made in
  \<^verbatim>\<open>delayedUpdate\<close> and those made in \<^verbatim>\<open>queueDeployment\<close> run different function literals
  and are kept in two heaps.
\<close>

record 'k timer =
  "when" :: "nat option"
  captured :: 'k

text \<open>
  A goroutine that the runtime has started for a timer that fired, and that has not run
  yet: the function literal of line 123 with the change it closes over, or that of line
  179 with its \<^verbatim>\<open>dep\<close>.
\<close>

datatype goroutine = Go_changeFunc ChangeType | Go_updateFunc Deployment

text \<open>
  The process state: the wall clock, the package variables \<^verbatim>\<open>delay\<close>,
  \<^verbatim>\<open>changeTimers\<close> and \<^verbatim>\<open>updateTimers\<close>, the timers of the runtime, what the process
  has done so far, whether it has died of a panic, and the goroutines of fired timers
  that wait to run. Time is counted in ticks of the
  clock; \<open>delay\<close> is the duration that the timers wait, and the runtime makes a timer
  with a negative duration fire at once, as with 0.
\<close>

record world =
  clock :: nat
  delay :: nat
  changeTimers :: "ChangeType \<rightharpoonup> nat"
  updateTimers :: "Deployment \<rightharpoonup> nat"
  changeHeap :: "ChangeType timer list"
  updateHeap :: "Deployment timer list"
  trace :: "(nat \<times> effect) list"
  crashed :: bool
  goroutines :: "goroutine list"

definition init :: "nat \<Rightarrow> world" where
  "init d = \<lparr>clock = 0, delay = d, changeTimers = Map.empty, updateTimers = Map.empty,
             changeHeap = [], updateHeap = [], trace = [], crashed = False,
             goroutines = []\<rparr>"

definition emit :: "effect \<Rightarrow> world \<Rightarrow> world" where
  "emit e s = s\<lparr>trace := trace s @ [(clock s, e)]\<rparr>"


section \<open>The runtime's timers\<close>

text \<open>
  \<^verbatim>\<open>time.AfterFunc(d, f)\<close> allocates a timer that fires \<open>d\<close> from now and returns the
  pointer to it; \<^verbatim>\<open>timer.Reset(d)\<close> makes the timer fire \<open>d\<close> from now, also when it has
  fired already.
\<close>

definition time_AfterFunc :: "nat \<Rightarrow> nat \<Rightarrow> 'k \<Rightarrow> 'k timer list \<Rightarrow> nat \<times> 'k timer list" where
  "time_AfterFunc now d k heap = (length heap, heap @ [\<lparr>when = Some (now + d), captured = k\<rparr>])"

definition timer_Reset :: "nat \<Rightarrow> nat \<Rightarrow> nat \<Rightarrow> 'k timer list \<Rightarrow> 'k timer list" where
  "timer_Reset now d t heap = heap[t := (heap ! t)\<lparr>when := Some (now + d)\<rparr>]"

definition dueAt :: "nat \<Rightarrow> 'k timer list \<Rightarrow> nat \<Rightarrow> bool" where
  "dueAt now heap t =
     (t < length heap \<and> (case when (heap ! t) of None \<Rightarrow> False | Some w \<Rightarrow> w \<le> now))"

section \<open>Update debouncer: queueDeployment (main.go 166-184)\<close>

text \<open>
  The statement after the map lookup of line 174, given what the lookup returned: reset
  the timer found, or make a timer and store it under the key.
\<close>

definition queueDeployment_then :: "apps_Deployment \<Rightarrow> Deployment \<Rightarrow> nat option \<Rightarrow> world \<Rightarrow> world" where
  "queueDeployment_then deployment dep found s =
     (case found of
        Some timer \<Rightarrow>
          (let s1 = emit (Log (''resetting timer on queued update to deployment '' @ obj_Name deployment)) s
           in s1\<lparr>updateHeap := timer_Reset (clock s1) (delay s1) timer (updateHeap s1)\<rparr>)
      | None \<Rightarrow>
          (let s1 = emit (Log (''queuing update to deployment '' @ obj_Name deployment)) s;
               (timer, heap) = time_AfterFunc (clock s1) (delay s1) dep (updateHeap s1)
           in s1\<lparr>updateHeap := heap, updateTimers := (updateTimers s1)(dep \<mapsto> timer)\<rparr>))"

definition queueDeployment :: "apps_Deployment \<Rightarrow> world \<Rightarrow> world" where
  "queueDeployment deployment s =
     (let dep = \<lparr>dep_Name = obj_Name deployment, dep_ResourceVersion = obj_ResourceVersion deployment\<rparr>
      in queueDeployment_then deployment dep (updateTimers s dep) s)"

section \<open>Dependency resolver: findAndQueueDeployments (main.go 130-164)\<close>

text \<open>
  The three nested loops. Each returns the environment sources its iterations have
  examined, in order, and whether it reached
  \<^verbatim>\<open>queueDeployment(deployment); continue deploymentLoop\<close>.
\<close>

datatype source = Import EnvFromSource | Single EnvVar

fun envFromLoop :: "ChangeType \<Rightarrow> EnvFromSource list \<Rightarrow> source list \<times> bool" where
  "envFromLoop change [] = ([], False)"
| "envFromLoop change (env # envs) =
     (if Type change = ''ConfigMap'' \<and> ConfigMapRef env \<noteq> None \<and> the (ConfigMapRef env) = Name change
      then ([Import env], True)
      else if Type change = ''Secret'' \<and> SecretRef env \<noteq> None \<and> the (SecretRef env) = Name change
      then ([Import env], True)
      else (let (seen, hit) = envFromLoop change envs in (Import env # seen, hit)))"

fun envLoop :: "ChangeType \<Rightarrow> EnvVar list \<Rightarrow> source list \<times> bool" where
  "envLoop change [] = ([], False)"
| "envLoop change (env # envs) =
     (if Type change = ''ConfigMap'' \<and> ValueFrom env \<noteq> None
           \<and> ConfigMapKeyRef (the (ValueFrom env)) \<noteq> None
           \<and> the (ConfigMapKeyRef (the (ValueFrom env))) = Name change
      then ([Single env], True)
      else if Type change = ''Secret'' \<and> ValueFrom env \<noteq> None
           \<and> SecretKeyRef (the (ValueFrom env)) \<noteq> None
           \<and> the (SecretKeyRef (the (ValueFrom env))) = Name change
      then ([Single env], True)
      else (let (seen, hit) = envLoop change envs in (Single env # seen, hit)))"

fun containerLoop :: "ChangeType \<Rightarrow> Container list \<Rightarrow> source list \<times> bool" where
  "containerLoop change [] = ([], False)"
| "containerLoop change (container # containers) =
     (let (seen1, hit1) = envFromLoop change (EnvFrom container) in
      if hit1 then (seen1, True)
      else (let (seen2, hit2) = envLoop change (Env container) in
            if hit2 then (seen1 @ seen2, True)
            else (let (seen3, hit3) = containerLoop change containers
                  in (seen1 @ seen2 @ seen3, hit3))))"

fun deploymentLoop :: "ChangeType \<Rightarrow> apps_Deployment list \<Rightarrow> world \<Rightarrow> world" where
  "deploymentLoop change [] s = s"
| "deploymentLoop change (deployment # items) s =
     deploymentLoop change items
       (if snd (containerLoop change (Containers deployment))
        then queueDeployment deployment s else s)"

definition findAndQueueDeployments :: "api \<Rightarrow> ChangeType \<Rightarrow> world \<Rightarrow> world" where
  "findAndQueueDeployments a change s =
     (let s1 = emit Api_List (emit (Call_findAndQueueDeployments change) s) in
      case List a (clock s1) of
        Inl err \<Rightarrow> (emit (Panic (message err)) s1)\<lparr>crashed := True\<rparr>
      | Inr items \<Rightarrow> deploymentLoop change items s1)"

section \<open>Change debouncer: delayedUpdate (main.go 117-128)\<close>

definition delayedUpdate_then :: "ChangeType \<Rightarrow> nat option \<Rightarrow> world \<Rightarrow> world" where
  "delayedUpdate_then change found s =
     (case found of
        Some timer \<Rightarrow>
          (let s1 = emit (Log (''saw change to '' @ Type change @ '' '' @ Name change @ '', resetting delay'')) s
           in s1\<lparr>changeHeap := timer_Reset (clock s1) (delay s1) timer (changeHeap s1)\<rparr>)
      | None \<Rightarrow>
          (let s1 = emit (Log (''saw change to '' @ Type change @ '' '' @ Name change @ '', starting countdown'')) s;
               (timer, heap) = time_AfterFunc (clock s1) (delay s1) change (changeHeap s1)
           in s1\<lparr>changeHeap := heap, changeTimers := (changeTimers s1)(change \<mapsto> timer)\<rparr>))"

definition delayedUpdate :: "ChangeType \<Rightarrow> world \<Rightarrow> world" where
  "delayedUpdate change s = delayedUpdate_then change (changeTimers s change) s"

text \<open>The function literal of line 123, run when a timer of \<^verbatim>\<open>delayedUpdate\<close> fires.\<close>

definition changeFunc :: "api \<Rightarrow> ChangeType \<Rightarrow> world \<Rightarrow> world" where
  "changeFunc a change s =
     findAndQueueDeployments a change (s\<lparr>changeTimers := (changeTimers s)(change := None)\<rparr>)"


section \<open>Patch applier: patchDeployment (main.go 186-231)\<close>

text \<open>
  \<^verbatim>\<open>m[k] = v\<close> on a Go map: a run-time panic when \<open>m\<close> is the nil map.
\<close>

definition mapassign :: "(string \<rightharpoonup> string) option \<Rightarrow> string \<Rightarrow> string \<Rightarrow> error + (string \<rightharpoonup> string) option" where
  "mapassign m k v =
     (case m of None \<Rightarrow> Inl (Error ''assignment to entry in nil map'')
              | Some f \<Rightarrow> Inr (Some (f(k \<mapsto> v))))"

text \<open>Lines 199 to 210: what the program does to the fetched object.\<close>

definition touch :: "string \<Rightarrow> apps_Deployment \<Rightarrow> error + apps_Deployment" where
  "touch now dep =
     (let dep1 = (if Annotations dep = None then dep\<lparr>Annotations := Some Map.empty\<rparr> else dep);
          dep2 = (if TemplateAnnotations dep1 = None
                  then dep1\<lparr>TemplateAnnotations := Some Map.empty\<rparr> else dep1)
      in case mapassign (Annotations dep2) ''configmaster/last.update'' now of
           Inl err \<Rightarrow> Inl err
         | Inr m1 \<Rightarrow>
             (let dep3 = dep2\<lparr>Annotations := m1\<rparr>
              in case mapassign (TemplateAnnotations dep3) ''configmaster/last.update'' now of
                   Inl err \<Rightarrow> Inl err
                 | Inr m2 \<Rightarrow> Inr (dep3\<lparr>TemplateAnnotations := m2\<rparr>)))"

definition patchDeployment :: "api \<Rightarrow> Deployment \<Rightarrow> world \<Rightarrow> world" where
  "patchDeployment a deployment s =
     (let s1 = emit (Api_Get (dep_Name deployment) (dep_ResourceVersion deployment))
                 (emit (Call_patchDeployment deployment) s) in
      case Get a (clock s1) (dep_Name deployment) (dep_ResourceVersion deployment) of
        Inl err \<Rightarrow>
          emit (Log (''error retrieving deployment '' @ dep_Name deployment @ '': '' @ message err)) s1
      | Inr dep \<Rightarrow>
         (case Marshal a dep of
            Inl err \<Rightarrow>
              emit (Log (''error marshaling deployment '' @ obj_Name dep @ '': '' @ message err)) s1
          | Inr current \<Rightarrow>
             (case touch (RFC3339 a (clock s1)) dep of
                Inl err \<Rightarrow> (emit (Panic (message err)) s1)\<lparr>crashed := True\<rparr>
              | Inr dep' \<Rightarrow>
                 (case Marshal a dep' of
                    Inl err \<Rightarrow>
                      emit (Log (''error marshaling deployment '' @ obj_Name dep' @ '': '' @ message err)) s1
                  | Inr updated \<Rightarrow>
                     (case CreateTwoWayMergePatch a current updated of
                        Inl err \<Rightarrow>
                          emit (Log (''error generating patch for deployment '' @ obj_Name dep' @ '': ''
                                     @ message err)) s1
                      | Inr patch \<Rightarrow>
                         (let s2 = emit (Api_Patch (obj_Name dep') patch) s1 in
                          case Patch a (clock s2) (obj_Name dep') patch of
                            Inl err \<Rightarrow>
                              emit (Log (''error patching deployment '' @ obj_Name dep' @ '': ''
                                         @ message err)) s2
                          | Inr _ \<Rightarrow>
                              emit (Log (''patched deployment '' @ obj_Name dep')) s2))))))"

text \<open>The function literal of line 179, run when a timer of \<^verbatim>\<open>queueDeployment\<close> fires.\<close>

definition updateFunc :: "api \<Rightarrow> Deployment \<Rightarrow> world \<Rightarrow> world" where
  "updateFunc a dep s =
     patchDeployment a dep (s\<lparr>updateTimers := (updateTimers s)(dep := None)\<rparr>)"

section \<open>Watch loops of main (main.go 80-112)\<close>

text \<open>
  The dynamic type of \<^verbatim>\<open>event.Object\<close>: a decoded config map or secret (with its
  \<^verbatim>\<open>ObjectMeta.Name\<close>), or an object of another type, such as the \<^verbatim>\<open>*meta.Status\<close> of
  an error event.
\<close>

datatype runtime_Object = ConfigMap_object string | Secret_object string | Other_object

record watch_Event =
  event_Type :: string
  Object :: runtime_Object

definition filterFunc :: "watch_Event \<Rightarrow> watch_Event \<times> bool" where
  "filterFunc in' = (in', event_Type in' = ''MODIFIED'')"

text \<open>
  The two-valued type assertions \<^verbatim>\<open>event.Object.(*core.ConfigMap)\<close> and
  \<^verbatim>\<open>event.Object.(*core.Secret)\<close>: the pointer (\<open>None\<close> is nil) and the flag.
\<close>

fun assert_ConfigMap :: "runtime_Object \<Rightarrow> string option \<times> bool" where
  "assert_ConfigMap (ConfigMap_object name) = (Some name, True)"
| "assert_ConfigMap _ = (None, False)"

fun assert_Secret :: "runtime_Object \<Rightarrow> string option \<times> bool" where
  "assert_Secret (Secret_object name) = (Some name, True)"
| "assert_Secret _ = (None, False)"

text \<open>
  The bodies of the two \<^verbatim>\<open>for event := range ...\<close> loops. The flag of the assertion is
  dropped; reading \<^verbatim>\<open>ObjectMeta.Name\<close> through a nil pointer panics.
\<close>

definition configmapEvent :: "watch_Event \<Rightarrow> world \<Rightarrow> world" where
  "configmapEvent event s =
     (let (configmap, _) = assert_ConfigMap (Object event) in
      case configmap of
        None \<Rightarrow> (emit (Panic ''invalid memory address or nil pointer dereference'') s)\<lparr>crashed := True\<rparr>
      | Some name \<Rightarrow> delayedUpdate \<lparr>Type = ''ConfigMap'', Name = name\<rparr> s)"

definition secretEvent :: "watch_Event \<Rightarrow> world \<Rightarrow> world" where
  "secretEvent event s =
     (let (secret, _) = assert_Secret (Object event) in
      case secret of
        None \<Rightarrow> (emit (Panic ''invalid memory address or nil pointer dereference'') s)\<lparr>crashed := True\<rparr>
      | Some name \<Rightarrow> delayedUpdate \<lparr>Type = ''Secret'', Name = name\<rparr> s)"

text \<open>
  A watch loop over the events its stream delivers: events that \<^verbatim>\<open>watch.Filter\<close> drops
  are skipped, and nothing runs once the process has died.
\<close>

fun watchLoop :: "(watch_Event \<Rightarrow> world \<Rightarrow> world) \<Rightarrow> watch_Event list \<Rightarrow> world \<Rightarrow> world" where
  "watchLoop body [] s = s"
| "watchLoop body (event # events) s =
     (if crashed s then s
      else watchLoop body events (if snd (filterFunc event) then body (fst (filterFunc event)) s else s))"

section \<open>Time: expiry of timers\<close>

text \<open>
  What the runtime does with a timer of \<^verbatim>\<open>time.AfterFunc\<close> at its expiry: the timer is no
  longer pending, and a goroutine is started for its function literal. The goroutine
  runs later, when the scheduler picks it; until then the function literal has done
  nothing, so that the entry of the timer is still in the map. Nothing fires and nothing
  runs in a process that has died.
\<close>

definition fireChange :: "world \<Rightarrow> nat \<Rightarrow> world" where
  "fireChange s t =
     (if \<not> crashed s \<and> dueAt (clock s) (changeHeap s) t
      then s\<lparr>changeHeap := (changeHeap s)[t := (changeHeap s ! t)\<lparr>when := None\<rparr>],
             goroutines := goroutines s @ [Go_changeFunc (captured (changeHeap s ! t))]\<rparr>
      else s)"

definition fireUpdate :: "world \<Rightarrow> nat \<Rightarrow> world" where
  "fireUpdate s t =
     (if \<not> crashed s \<and> dueAt (clock s) (updateHeap s) t
      then s\<lparr>updateHeap := (updateHeap s)[t := (updateHeap s ! t)\<lparr>when := None\<rparr>],
             goroutines := goroutines s @ [Go_updateFunc (captured (updateHeap s ! t))]\<rparr>
      else s)"

fun runFunc :: "api \<Rightarrow> goroutine \<Rightarrow> world \<Rightarrow> world" where
  "runFunc a (Go_changeFunc change) s = changeFunc a change s"
| "runFunc a (Go_updateFunc dep) s = updateFunc a dep s"

text \<open>The scheduler runs the waiting goroutine number \<open>i\<close>, as a whole.\<close>

definition go :: "api \<Rightarrow> nat \<Rightarrow> world \<Rightarrow> world" where
  "go a i s =
     (if \<not> crashed s \<and> i < length (goroutines s)
      then runFunc a (goroutines s ! i)
             (s\<lparr>goroutines := take i (goroutines s) @ drop (Suc i) (goroutines s)\<rparr>)
      else s)"

section \<open>The serial schedule\<close>

text \<open>
  The program takes no lock, and the scheduler of Go may run the watch loops and the
  goroutines of the timers in any interleaving. What follows is one schedule among them,
  the serial and prompt one: a timer fires at the instant of its expiry, the goroutine it
  starts runs at once and as a whole, before anything else happens, and a notification is
  handled as a whole between two such steps. It is an assumption wherever it is used,
  not a property of the program. In \<open>stepChange\<close> and \<open>stepUpdate\<close> the runtime looks
  at one timer: when it is due it fires and the goroutine just started runs. One
  \<open>tick\<close> is one instant of the clock: the timers of \<^verbatim>\<open>delayedUpdate\<close> that are due fire,
  then those of \<^verbatim>\<open>queueDeployment\<close> (among them the ones just made with delay 0); then
  the clock moves on.
\<close>

definition stepChange :: "api \<Rightarrow> world \<Rightarrow> nat \<Rightarrow> world" where
  "stepChange a s t = go a (length (goroutines s)) (fireChange s t)"

definition stepUpdate :: "api \<Rightarrow> world \<Rightarrow> nat \<Rightarrow> world" where
  "stepUpdate a s t = go a (length (goroutines s)) (fireUpdate s t)"

definition tick :: "api \<Rightarrow> world \<Rightarrow> world" where
  "tick a s =
     (let s1 = foldl (stepChange a) s [0 ..< length (changeHeap s)];
          s2 = foldl (stepUpdate a) s1 [0 ..< length (updateHeap s1)]
      in s2\<lparr>clock := clock s2 + 1\<rparr>)"

primrec ticks :: "api \<Rightarrow> nat \<Rightarrow> world \<Rightarrow> world" where
  "ticks a 0 s = s"
| "ticks a (Suc n) s = ticks a n (tick a s)"

definition sleepUntil :: "api \<Rightarrow> nat \<Rightarrow> world \<Rightarrow> world" where
  "sleepUntil a t s = ticks a (t - clock s) s"

text \<open>
  A run of the process under the serial schedule over the notifications that reach
  \<^verbatim>\<open>delayedUpdate\<close>, each with the instant at which it arrives.
\<close>

fun run :: "api \<Rightarrow> (nat \<times> ChangeType) list \<Rightarrow> world \<Rightarrow> world" where
  "run a [] s = s"
| "run a ((t, change) # evs) s =
     run a evs (let s1 = sleepUntil a t s in if crashed s1 then s1 else delayedUpdate change s1)"

section \<open>Specification of the dependency scan\<close>

text \<open>
  The references that an environment source holds, each as the kind and the name of the
  referenced object: a whole-bundle import (\<^verbatim>\<open>envFrom\<close>) may point at a config map, at a
  secret or at both, a single-key reference (\<^verbatim>\<open>env ... valueFrom\<close>) likewise.
\<close>

fun refs :: "source \<Rightarrow> (string \<times> string) list" where
  "refs (Import env) =
     (case ConfigMapRef env of None \<Rightarrow> [] | Some n \<Rightarrow> [(''ConfigMap'', n)])
     @ (case SecretRef env of None \<Rightarrow> [] | Some n \<Rightarrow> [(''Secret'', n)])"
| "refs (Single env) =
     (case ValueFrom env of
        None \<Rightarrow> []
      | Some v \<Rightarrow>
          (case ConfigMapKeyRef v of None \<Rightarrow> [] | Some n \<Rightarrow> [(''ConfigMap'', n)])
          @ (case SecretKeyRef v of None \<Rightarrow> [] | Some n \<Rightarrow> [(''Secret'', n)]))"

text \<open>A source refers to a change when it holds a reference of exactly its kind and name.\<close>

definition refers :: "ChangeType \<Rightarrow> source \<Rightarrow> bool" where
  "refers change src = ((Type change, Name change) \<in> set (refs src))"

text \<open>
  The order of the scan as the specification words it: container by container, the
  whole-bundle imports of a container before its single-key references.
\<close>

definition scanOrder :: "Container list \<Rightarrow> source list" where
  "scanOrder containers =
     concat (map (\<lambda>c. map Import (EnvFrom c) @ map Single (Env c)) containers)"

text \<open>A workload depends on a change when a source of one of its main containers refers to it.\<close>

definition depends :: "ChangeType \<Rightarrow> apps_Deployment \<Rightarrow> bool" where
  "depends change deployment = (\<exists>src \<in> set (scanOrder (Containers deployment)). refers change src)"

text \<open>The elements of a list up to and including the first one that satisfies \<open>P\<close>.\<close>

definition upToFirst :: "('a \<Rightarrow> bool) \<Rightarrow> 'a list \<Rightarrow> 'a list" where
  "upToFirst P xs = takeWhile (\<lambda>x. \<not> P x) xs @ take 1 (dropWhile (\<lambda>x. \<not> P x) xs)"

section \<open>Specification of the patch\<close>

text \<open>The entries of an annotation map; the nil map has none.\<close>

definition entries :: "(string \<rightharpoonup> string) option \<Rightarrow> string \<rightharpoonup> string" where
  "entries m = (case m of None \<Rightarrow> Map.empty | Some f \<Rightarrow> f)"

text \<open>
  The target as the specification words it: the object with the timestamp annotation set,
  created if absent, in the metadata of the workload and of its pod template, and nothing
  else changed.
\<close>

definition stamped :: "string \<Rightarrow> apps_Deployment \<Rightarrow> apps_Deployment" where
  "stamped now dep =
     dep\<lparr>Annotations := Some ((entries (Annotations dep))(''configmaster/last.update'' \<mapsto> now)),
         TemplateAnnotations :=
           Some ((entries (TemplateAnnotations dep))(''configmaster/last.update'' \<mapsto> now))\<rparr>"

text \<open>What every call of \<^verbatim>\<open>patchDeployment\<close> does first: it is entered and fetches the workload.\<close>

definition entered :: "Deployment \<Rightarrow> world \<Rightarrow> world" where
  "entered deployment s =
     emit (Api_Get (dep_Name deployment) (dep_ResourceVersion deployment))
       (emit (Call_patchDeployment deployment) s)"

section \<open>Consistency of the timer maps\<close>

text \<open>
  A timer map and the timers of the runtime agree: every entry points at a pending timer
  that closes over its key, and every pending timer is the entry of the key it closes over.
\<close>

definition linked :: "('k \<rightharpoonup> nat) \<Rightarrow> 'k timer list \<Rightarrow> bool" where
  "linked m heap =
     ((\<forall>k t. m k = Some t \<longrightarrow> t < length heap \<and> captured (heap ! t) = k \<and> when (heap ! t) \<noteq> None)
      \<and> (\<forall>t < length heap. when (heap ! t) \<noteq> None \<longrightarrow> m (captured (heap ! t)) = Some t))"

definition consistent :: "world \<Rightarrow> bool" where
  "consistent s = (linked (changeTimers s) (changeHeap s) \<and> linked (updateTimers s) (updateHeap s))"

text \<open>The live timers of a key: the pending timers that close over it.\<close>

definition pending :: "'k timer list \<Rightarrow> 'k \<Rightarrow> nat list" where
  "pending heap k = [t \<leftarrow> [0 ..< length heap]. when (heap ! t) \<noteq> None \<and> captured (heap ! t) = k]"

section \<open>Callbacks in a trace\<close>

text \<open>
  The settled-change callbacks of a trace (the entries of \<^verbatim>\<open>findAndQueueDeployments\<close>) and
  its patch occurrences (the entries of \<^verbatim>\<open>patchDeployment\<close>), each with its time.
\<close>

fun settledAt :: "nat \<times> effect \<Rightarrow> (nat \<times> ChangeType) list" where
  "settledAt (t, Call_findAndQueueDeployments c) = [(t, c)]"
| "settledAt _ = []"

definition settled :: "(nat \<times> effect) list \<Rightarrow> (nat \<times> ChangeType) list" where
  "settled tr = concat (map settledAt tr)"

fun patchedAt :: "nat \<times> effect \<Rightarrow> (nat \<times> Deployment) list" where
  "patchedAt (t, Call_patchDeployment d) = [(t, d)]"
| "patchedAt _ = []"

definition patched :: "(nat \<times> effect) list \<Rightarrow> (nat \<times> Deployment) list" where
  "patched tr = concat (map patchedAt tr)"

text \<open>The debounce key that \<^verbatim>\<open>queueDeployment\<close> builds from a workload.\<close>

definition key :: "apps_Deployment \<Rightarrow> Deployment" where
  "key deployment = \<lparr>dep_Name = obj_Name deployment, dep_ResourceVersion = obj_ResourceVersion deployment\<rparr>"

section \<open>The countdown of one change\<close>

text \<open>The times at which the settled-change callback ran for one descriptor.\<close>

definition settledFor :: "ChangeType \<Rightarrow> world \<Rightarrow> nat list" where
  "settledFor d s = map fst (filter (\<lambda>e. snd e = d) (settled (trace s)))"

text \<open>
  The descriptor has a countdown pending in timer \<open>t0\<close> that ends at \<open>w\<close>, or it
  has no entry in the map.
\<close>

definition counting :: "ChangeType \<Rightarrow> nat \<Rightarrow> nat \<Rightarrow> world \<Rightarrow> bool" where
  "counting d t0 w s = (consistent s \<and> changeTimers s d = Some t0 \<and> when (changeHeap s ! t0) = Some w)"

definition idle :: "ChangeType \<Rightarrow> world \<Rightarrow> bool" where
  "idle d s = (consistent s \<and> changeTimers s d = None)"

section \<open>Bursts of notifications\<close>

text \<open>
  A burst: one or more instants, each later than the one before by less than the delay.
  \<open>timesOf\<close> gives the instants at which a run notifies one descriptor.
\<close>

fun spaced :: "nat \<Rightarrow> nat \<Rightarrow> nat list \<Rightarrow> bool" where
  "spaced D t [] = True"
| "spaced D t (t' # ts) = (t < t' \<and> t' - t < D \<and> spaced D t' ts)"

definition burst :: "nat \<Rightarrow> nat list \<Rightarrow> bool" where
  "burst D ts = (case ts of [] \<Rightarrow> False | t # ts' \<Rightarrow> spaced D t ts')"

definition timesOf :: "ChangeType \<Rightarrow> (nat \<times> ChangeType) list \<Rightarrow> nat list" where
  "timesOf d evs = map fst (filter (\<lambda>e. snd e = d) evs)"

section \<open>Concrete inputs\<close>

text \<open>
  A workload that imports the config map \<^verbatim>\<open>app-config\<close> as a whole and reads one key
  of the secret \<^verbatim>\<open>db-pass\<close>, and the same workload as a later resource version.
\<close>

definition web :: apps_Deployment where
  "web = \<lparr>obj_Name = ''web'', obj_ResourceVersion = ''41'', Annotations = None,
          TemplateAnnotations = Some [''team'' \<mapsto> ''shop''],
          Containers = [\<lparr>EnvFrom = [\<lparr>ConfigMapRef = Some ''app-config'', SecretRef = None\<rparr>],
                         Env = [\<lparr>ValueFrom = Some \<lparr>ConfigMapKeyRef = None, SecretKeyRef = Some ''db-pass''\<rparr>\<rparr>]\<rparr>],
          InitContainers = [], Other = ''replicas: 2''\<rparr>"

definition web42 :: apps_Deployment where
  "web42 = web\<lparr>obj_ResourceVersion := ''42''\<rparr>"

text \<open>A workload that refers to \<^verbatim>\<open>app-config\<close> in an init container only.\<close>

definition job :: apps_Deployment where
  "job = \<lparr>obj_Name = ''job'', obj_ResourceVersion = ''7'', Annotations = None,
          TemplateAnnotations = None,
          Containers = [\<lparr>EnvFrom = [], Env = [\<lparr>ValueFrom = None\<rparr>]\<rparr>],
          InitContainers = [\<lparr>EnvFrom = [\<lparr>ConfigMapRef = Some ''app-config'', SecretRef = None\<rparr>],
                             Env = []\<rparr>],
          Other = ''replicas: 1''\<rparr>"

text \<open>
  A cluster that holds the two workloads and answers every call; its serialisation shows
  the name and the timestamp annotation, its patch the two serialisations. Then the same
  cluster with one call that fails.
\<close>

definition cluster :: api where
  "cluster = \<lparr>List = (\<lambda>t. Inr [web, job]),
              Get = (\<lambda>t n v. if n = ''web'' \<and> v = ''41'' then Inr web else Inl (Error ''not found'')),
              Marshal = (\<lambda>d. Inr (obj_Name d @ '' '' @
                          (case entries (Annotations d) ''configmaster/last.update'' of
                             None \<Rightarrow> ''never'' | Some v \<Rightarrow> v))),
              CreateTwoWayMergePatch = (\<lambda>x y. Inr (x @ ''>'' @ y)),
              Patch = (\<lambda>t n p. Inr ()),
              RFC3339 = (\<lambda>t. ''2018-01-01T00:00:00Z'')\<rparr>"

definition unreachable :: api where
  "unreachable = cluster\<lparr>List := (\<lambda>t. Inl (Error ''connection refused''))\<rparr>"

definition marshalFails :: api where
  "marshalFails = cluster\<lparr>Marshal := (\<lambda>d. Inl (Error ''unsupported type''))\<rparr>"

definition marshalFailsLater :: api where
  "marshalFailsLater =
     cluster\<lparr>Marshal := (\<lambda>d. if Annotations d = None then Inr (obj_Name d)
                               else Inl (Error ''unsupported value''))\<rparr>"

definition createFails :: api where
  "createFails = cluster\<lparr>CreateTwoWayMergePatch := (\<lambda>x y. Inl (Error ''invalid json''))\<rparr>"

definition patchFails :: api where
  "patchFails = cluster\<lparr>Patch := (\<lambda>t n p. Inl (Error ''conflict''))\<rparr>"

text \<open>Change descriptors, debounce keys and watch events.\<close>

definition appConfig :: ChangeType where
  "appConfig = \<lparr>Type = ''ConfigMap'', Name = ''app-config''\<rparr>"

definition dbPass :: ChangeType where
  "dbPass = \<lparr>Type = ''Secret'', Name = ''db-pass''\<rparr>"

definition webRef :: Deployment where
  "webRef = \<lparr>dep_Name = ''web'', dep_ResourceVersion = ''41''\<rparr>"

definition webRef42 :: Deployment where
  "webRef42 = \<lparr>dep_Name = ''web'', dep_ResourceVersion = ''42''\<rparr>"

definition gone :: Deployment where
  "gone = \<lparr>dep_Name = ''gone'', dep_ResourceVersion = ''1''\<rparr>"

definition statusEvent :: watch_Event where
  "statusEvent = \<lparr>event_Type = ''MODIFIED'', Object = Other_object\<rparr>"

definition modified :: "string \<Rightarrow> watch_Event" where
  "modified name = \<lparr>event_Type = ''MODIFIED'', Object = ConfigMap_object name\<rparr>"

text \<open>
  The same cluster, where listing the workloads fails at time 5 and at no other time, and
  where it fails from time 14 on.
\<close>

definition failsAt5 :: api where
  "failsAt5 = cluster\<lparr>List := (\<lambda>t. if t = 5 then Inl (Error ''connection refused'')
                                    else Inr [web, job])\<rparr>"

definition failsFrom14 :: api where
  "failsFrom14 = cluster\<lparr>List := (\<lambda>t. if 14 \<le> t then Inl (Error ''connection refused'')
                                     else Inr [web, job])\<rparr>"

text \<open>
  States of the process with delay 5: after one notification of \<^verbatim>\<open>app-config\<close> at time
  0, and at time 5, when its timer is due and has not fired yet; after the workload was
  queued at time 0, and again as a later version at time 2, and three ticks later, when
  the timer of the older version is due and has not fired yet; and in the middle of a run
  with notifications of two descriptors.
\<close>

definition started :: world where
  "started = delayedUpdate appConfig (init 5)"

definition expiring :: world where
  "expiring = ticks cluster 5 started"

definition once :: world where
  "once = ticks cluster 2 (queueDeployment web (init 5))"

definition twice :: world where
  "twice = queueDeployment web42 once"

definition dueUpdate :: world where
  "dueUpdate = ticks cluster 3 twice"

definition busy :: world where
  "busy = run cluster [(0, appConfig), (2, dbPass), (3, appConfig), (6, appConfig)] (init 5)"

section \<open>Lemmas: The dependency scan\<close>

lemma upToFirst_Nil [simp]: "upToFirst P [] = []"
  by (simp add: upToFirst_def)

lemma upToFirst_Cons [simp]: "upToFirst P (x # xs) = (if P x then [x] else x # upToFirst P xs)"
  by (simp add: upToFirst_def)

lemma upToFirst_none: "\<forall>x \<in> set xs. \<not> P x \<Longrightarrow> upToFirst P xs = xs"
  by (induction xs) auto

lemma upToFirst_append:
  "upToFirst P (xs @ ys) = (if \<exists>x \<in> set xs. P x then upToFirst P xs else xs @ upToFirst P ys)"
  by (induction xs) auto

lemma refers_Import:
  "refers change (Import env) =
     (Type change = ''ConfigMap'' \<and> ConfigMapRef env \<noteq> None \<and> the (ConfigMapRef env) = Name change
      \<or> Type change = ''Secret'' \<and> SecretRef env \<noteq> None \<and> the (SecretRef env) = Name change)"
  by (cases "ConfigMapRef env"; cases "SecretRef env") (auto simp: refers_def)

lemma refers_Single:
  "refers change (Single env) =
     (Type change = ''ConfigMap'' \<and> ValueFrom env \<noteq> None
        \<and> ConfigMapKeyRef (the (ValueFrom env)) \<noteq> None
        \<and> the (ConfigMapKeyRef (the (ValueFrom env))) = Name change
      \<or> Type change = ''Secret'' \<and> ValueFrom env \<noteq> None
        \<and> SecretKeyRef (the (ValueFrom env)) \<noteq> None
        \<and> the (SecretKeyRef (the (ValueFrom env))) = Name change)"
proof (cases "ValueFrom env")
  case None
  then show ?thesis by (simp add: refers_def)
next
  case (Some v)
  then show ?thesis
    by (cases "ConfigMapKeyRef v"; cases "SecretKeyRef v") (auto simp: refers_def)
qed

lemma envFromLoop_eq:
  "envFromLoop change envs =
     (upToFirst (refers change) (map Import envs), \<exists>env \<in> set envs. refers change (Import env))"
proof (induction envs)
  case Nil
  show ?case by simp
next
  case (Cons env envs)
  show ?case
  proof (cases "refers change (Import env)")
    case True
    then show ?thesis by (auto simp: refers_Import)
  next
    case False
    then show ?thesis using Cons by (auto simp: refers_Import)
  qed
qed

lemma envLoop_eq:
  "envLoop change envs =
     (upToFirst (refers change) (map Single envs), \<exists>env \<in> set envs. refers change (Single env))"
proof (induction envs)
  case Nil
  show ?case by simp
next
  case (Cons env envs)
  show ?case
  proof (cases "refers change (Single env)")
    case True
    then show ?thesis by (auto simp: refers_Single)
  next
    case False
    then show ?thesis using Cons by (auto simp: refers_Single)
  qed
qed

lemma containerLoop_eq:
  "containerLoop change containers =
     (upToFirst (refers change) (scanOrder containers),
      \<exists>src \<in> set (scanOrder containers). refers change src)"
proof (induction containers)
  case Nil
  show ?case by (simp add: scanOrder_def)
next
  case (Cons c cs)
  have so: "scanOrder (c # cs) = map Import (EnvFrom c) @ map Single (Env c) @ scanOrder cs"
    by (simp add: scanOrder_def)
  show ?case
    using Cons
    by (auto simp: so envFromLoop_eq envLoop_eq upToFirst_append upToFirst_none)
qed

lemma deploymentLoop_eq:
  "deploymentLoop change items s =
     foldl (\<lambda>s d. queueDeployment d s) s (filter (depends change) items)"
  by (induction items arbitrary: s) (simp_all add: containerLoop_eq depends_def)

section \<open>Lemmas: The patch applier\<close>

lemma touch_stamped: "touch now dep = Inr (stamped now dep)"
  by (cases "Annotations dep"; cases "TemplateAnnotations dep")
     (simp_all add: touch_def mapassign_def stamped_def entries_def)

lemma stamped_twice: "stamped t2 (stamped t1 dep) = stamped t2 dep"
  by (simp add: stamped_def entries_def)

lemma stamped_name: "obj_Name (stamped now dep) = obj_Name dep"
  by (simp add: stamped_def)

lemma clock_emit [simp]: "clock (emit e s) = clock s"
  by (simp add: emit_def)

lemma clock_entered [simp]: "clock (entered deployment s) = clock s"
  by (simp add: entered_def)

lemma patch_get_fails:
  "Get a (clock s) (dep_Name deployment) (dep_ResourceVersion deployment) = Inl err \<Longrightarrow>
   patchDeployment a deployment s =
     emit (Log (''error retrieving deployment '' @ dep_Name deployment @ '': '' @ message err))
       (entered deployment s)"
  by (simp add: patchDeployment_def entered_def)

lemma patch_marshal1_fails:
  "Get a (clock s) (dep_Name deployment) (dep_ResourceVersion deployment) = Inr dep \<Longrightarrow>
   Marshal a dep = Inl err \<Longrightarrow>
   patchDeployment a deployment s =
     emit (Log (''error marshaling deployment '' @ obj_Name dep @ '': '' @ message err))
       (entered deployment s)"
  by (simp add: patchDeployment_def entered_def)

lemma patch_marshal2_fails:
  "Get a (clock s) (dep_Name deployment) (dep_ResourceVersion deployment) = Inr dep \<Longrightarrow>
   Marshal a dep = Inr current \<Longrightarrow>
   Marshal a (stamped (RFC3339 a (clock s)) dep) = Inl err \<Longrightarrow>
   patchDeployment a deployment s =
     emit (Log (''error marshaling deployment '' @ obj_Name dep @ '': '' @ message err))
       (entered deployment s)"
  by (simp add: patchDeployment_def entered_def touch_stamped stamped_name)

lemma patch_create_fails:
  "Get a (clock s) (dep_Name deployment) (dep_ResourceVersion deployment) = Inr dep \<Longrightarrow>
   Marshal a dep = Inr current \<Longrightarrow>
   Marshal a (stamped (RFC3339 a (clock s)) dep) = Inr updated \<Longrightarrow>
   CreateTwoWayMergePatch a current updated = Inl err \<Longrightarrow>
   patchDeployment a deployment s =
     emit (Log (''error generating patch for deployment '' @ obj_Name dep @ '': '' @ message err))
       (entered deployment s)"
  by (simp add: patchDeployment_def entered_def touch_stamped stamped_name)

lemma patch_submit_fails:
  "Get a (clock s) (dep_Name deployment) (dep_ResourceVersion deployment) = Inr dep \<Longrightarrow>
   Marshal a dep = Inr current \<Longrightarrow>
   Marshal a (stamped (RFC3339 a (clock s)) dep) = Inr updated \<Longrightarrow>
   CreateTwoWayMergePatch a current updated = Inr patch \<Longrightarrow>
   Patch a (clock s) (obj_Name dep) patch = Inl err \<Longrightarrow>
   patchDeployment a deployment s =
     emit (Log (''error patching deployment '' @ obj_Name dep @ '': '' @ message err))
       (emit (Api_Patch (obj_Name dep) patch) (entered deployment s))"
  by (simp add: patchDeployment_def entered_def touch_stamped stamped_name)

lemma patch_succeeds:
  "Get a (clock s) (dep_Name deployment) (dep_ResourceVersion deployment) = Inr dep \<Longrightarrow>
   Marshal a dep = Inr current \<Longrightarrow>
   Marshal a (stamped (RFC3339 a (clock s)) dep) = Inr updated \<Longrightarrow>
   CreateTwoWayMergePatch a current updated = Inr patch \<Longrightarrow>
   Patch a (clock s) (obj_Name dep) patch = Inr u \<Longrightarrow>
   patchDeployment a deployment s =
     emit (Log (''patched deployment '' @ obj_Name dep))
       (emit (Api_Patch (obj_Name dep) patch) (entered deployment s))"
  by (simp add: patchDeployment_def entered_def touch_stamped stamped_name)

section \<open>Lemmas: Timer maps and timers\<close>

lemma linked_empty: "linked Map.empty []"
  by (simp add: linked_def)

lemma linkedI:
  assumes "\<And>k t. m k = Some t \<Longrightarrow> t < length heap \<and> captured (heap ! t) = k \<and> when (heap ! t) \<noteq> None"
    and "\<And>t. t < length heap \<Longrightarrow> when (heap ! t) \<noteq> None \<Longrightarrow> m (captured (heap ! t)) = Some t"
  shows "linked m heap"
  unfolding linked_def using assms by blast

lemma linkedD1:
  "linked m heap \<Longrightarrow> m k = Some t \<Longrightarrow> t < length heap \<and> captured (heap ! t) = k \<and> when (heap ! t) \<noteq> None"
  unfolding linked_def by blast

lemma linkedD2:
  "linked m heap \<Longrightarrow> t < length heap \<Longrightarrow> when (heap ! t) \<noteq> None \<Longrightarrow> m (captured (heap ! t)) = Some t"
  unfolding linked_def by blast

lemma linked_reset:
  assumes l: "linked m heap" and k: "m k = Some t"
  shows "linked m (timer_Reset now d t heap)"
proof (rule linkedI)
  fix k' t' assume "m k' = Some t'"
  from linkedD1 [OF l this]
  show "t' < length (timer_Reset now d t heap) \<and> captured (timer_Reset now d t heap ! t') = k'
        \<and> when (timer_Reset now d t heap ! t') \<noteq> None"
    by (cases "t' = t") (simp_all add: timer_Reset_def)
next
  fix t' assume a: "t' < length (timer_Reset now d t heap)" "when (timer_Reset now d t heap ! t') \<noteq> None"
  show "m (captured (timer_Reset now d t heap ! t')) = Some t'"
  proof (cases "t' = t")
    case True
    with a linkedD1 [OF l k] k show ?thesis by (simp add: timer_Reset_def)
  next
    case False
    with a have "t' < length heap" "when (heap ! t') \<noteq> None" "timer_Reset now d t heap ! t' = heap ! t'"
      by (simp_all add: timer_Reset_def)
    with linkedD2 [OF l] show ?thesis by simp
  qed
qed

lemma linked_afterFunc:
  assumes l: "linked m heap" and k: "m k = None"
  shows "linked (m(k \<mapsto> length heap)) (heap @ [\<lparr>when = Some w, captured = k\<rparr>])"
proof (rule linkedI)
  fix k' t' assume a: "(m(k \<mapsto> length heap)) k' = Some t'"
  show "t' < length (heap @ [\<lparr>when = Some w, captured = k\<rparr>])
        \<and> captured ((heap @ [\<lparr>when = Some w, captured = k\<rparr>]) ! t') = k'
        \<and> when ((heap @ [\<lparr>when = Some w, captured = k\<rparr>]) ! t') \<noteq> None"
  proof (cases "k' = k")
    case True
    with a show ?thesis by auto
  next
    case False
    with a have "m k' = Some t'" by simp
    from linkedD1 [OF l this] show ?thesis by (simp add: nth_append)
  qed
next
  fix t' assume a: "t' < length (heap @ [\<lparr>when = Some w, captured = k\<rparr>])"
    "when ((heap @ [\<lparr>when = Some w, captured = k\<rparr>]) ! t') \<noteq> None"
  show "(m(k \<mapsto> length heap)) (captured ((heap @ [\<lparr>when = Some w, captured = k\<rparr>]) ! t')) = Some t'"
  proof (cases "t' = length heap")
    case True
    then show ?thesis by simp
  next
    case False
    with a have b: "t' < length heap" "when (heap ! t') \<noteq> None" by (simp_all add: nth_append)
    from linkedD2 [OF l b] have c: "m (captured (heap ! t')) = Some t'" .
    with k have "captured (heap ! t') \<noteq> k" by auto
    with b c show ?thesis by (simp add: nth_append)
  qed
qed

lemma linked_expire:
  assumes l: "linked m heap" and t: "t < length heap" and w: "when (heap ! t) \<noteq> None"
  shows "linked (m(captured (heap ! t) := None)) (heap[t := (heap ! t)\<lparr>when := None\<rparr>])"
proof (rule linkedI)
  fix k' t' assume a: "(m(captured (heap ! t) := None)) k' = Some t'"
  then have ne: "k' \<noteq> captured (heap ! t)" and mk: "m k' = Some t'"
    by (auto split: if_splits)
  from linkedD1 [OF l mk] ne have "t' \<noteq> t" by auto
  with linkedD1 [OF l mk]
  show "t' < length (heap[t := (heap ! t)\<lparr>when := None\<rparr>])
        \<and> captured (heap[t := (heap ! t)\<lparr>when := None\<rparr>] ! t') = k'
        \<and> when (heap[t := (heap ! t)\<lparr>when := None\<rparr>] ! t') \<noteq> None"
    by simp
next
  fix t' assume a: "t' < length (heap[t := (heap ! t)\<lparr>when := None\<rparr>])"
    "when (heap[t := (heap ! t)\<lparr>when := None\<rparr>] ! t') \<noteq> None"
  then have ne: "t' \<noteq> t" using t by auto
  with a have b: "t' < length heap" "when (heap ! t') \<noteq> None" by simp_all
  from linkedD2 [OF l b] have c: "m (captured (heap ! t')) = Some t'" .
  from linkedD2 [OF l t w] have d: "m (captured (heap ! t)) = Some t" .
  from c d ne have "captured (heap ! t') \<noteq> captured (heap ! t)" by auto
  with c ne show "(m(captured (heap ! t) := None)) (captured (heap[t := (heap ! t)\<lparr>when := None\<rparr>] ! t')) = Some t'"
    by simp
qed

lemma filter_upt_eq: "t < n \<Longrightarrow> [u \<leftarrow> [0 ..< n]. u = t] = [t]"
  by (induction n) (auto simp: less_Suc_eq)

lemma filter_upt_cong:
  "(\<And>u. u < n \<Longrightarrow> P u = Q u) \<Longrightarrow> filter P [0 ..< n] = filter Q [0 ..< n]"
  by (rule filter_cong) auto

lemma linked_pending:
  assumes "linked m heap"
  shows "pending heap k = (case m k of None \<Rightarrow> [] | Some t \<Rightarrow> [t])"
proof (cases "m k")
  case None
  have "\<forall>t < length heap. \<not> (when (heap ! t) \<noteq> None \<and> captured (heap ! t) = k)"
    using linkedD2 [OF assms] None by fastforce
  then have "pending heap k = []"
    unfolding pending_def filter_empty_conv by simp
  with None show ?thesis by simp
next
  case (Some t)
  from linkedD1 [OF assms Some]
  have t: "t < length heap" "captured (heap ! t) = k" "when (heap ! t) \<noteq> None"
    by simp_all
  have only: "\<forall>u < length heap. when (heap ! u) \<noteq> None \<and> captured (heap ! u) = k \<longrightarrow> u = t"
    using linkedD2 [OF assms] Some by fastforce
  have "pending heap k = [u \<leftarrow> [0 ..< length heap]. u = t]"
    unfolding pending_def
  proof (rule filter_upt_cong)
    fix u assume "u < length heap"
    then show "(when (heap ! u) \<noteq> None \<and> captured (heap ! u) = k) = (u = t)"
      using t only by blast
  qed
  also have "\<dots> = [t]"
    using t(1) by (rule filter_upt_eq)
  finally show ?thesis using Some by simp
qed

section \<open>Lemmas: The debouncers and the resolver\<close>

lemma settled_append [simp]: "settled (xs @ ys) = settled xs @ settled ys"
  by (simp add: settled_def)

lemma patched_append [simp]: "patched (xs @ ys) = patched xs @ patched ys"
  by (simp add: patched_def)

lemma settled_simps [simp]:
  "settled [] = []"
  "settled ((t, Call_findAndQueueDeployments c) # tr) = (t, c) # settled tr"
  "settled ((t, Log l) # tr) = settled tr"
  "settled ((t, Call_patchDeployment d) # tr) = settled tr"
  "settled ((t, Api_List) # tr) = settled tr"
  "settled ((t, Api_Get n v) # tr) = settled tr"
  "settled ((t, Api_Patch n p) # tr) = settled tr"
  "settled ((t, Panic m) # tr) = settled tr"
  by (simp_all add: settled_def)

lemma patched_simps [simp]:
  "patched [] = []"
  "patched ((t, Call_patchDeployment d) # tr) = (t, d) # patched tr"
  "patched ((t, Log l) # tr) = patched tr"
  "patched ((t, Call_findAndQueueDeployments c) # tr) = patched tr"
  "patched ((t, Api_List) # tr) = patched tr"
  "patched ((t, Api_Get n v) # tr) = patched tr"
  "patched ((t, Api_Patch n p) # tr) = patched tr"
  "patched ((t, Panic m) # tr) = patched tr"
  by (simp_all add: patched_def)

lemma delayedUpdate_found:
  "changeTimers s change = Some t \<Longrightarrow>
   delayedUpdate change s =
     s\<lparr>changeHeap := (changeHeap s)[t := (changeHeap s ! t)\<lparr>when := Some (clock s + delay s)\<rparr>],
       trace := trace s @ [(clock s, Log (''saw change to '' @ Type change @ '' '' @ Name change @ '', resetting delay''))]\<rparr>"
  by (simp add: delayedUpdate_def delayedUpdate_then_def emit_def timer_Reset_def)

lemma delayedUpdate_absent:
  "changeTimers s change = None \<Longrightarrow>
   delayedUpdate change s =
     s\<lparr>changeTimers := (changeTimers s)(change \<mapsto> length (changeHeap s)),
       changeHeap := changeHeap s @ [\<lparr>when = Some (clock s + delay s), captured = change\<rparr>],
       trace := trace s @ [(clock s, Log (''saw change to '' @ Type change @ '' '' @ Name change @ '', starting countdown''))]\<rparr>"
  by (simp add: delayedUpdate_def delayedUpdate_then_def emit_def time_AfterFunc_def)

lemma delayedUpdate_frame [simp]:
  "clock (delayedUpdate change s) = clock s"
  "delay (delayedUpdate change s) = delay s"
  "crashed (delayedUpdate change s) = crashed s"
  "updateTimers (delayedUpdate change s) = updateTimers s"
  "updateHeap (delayedUpdate change s) = updateHeap s"
  "settled (trace (delayedUpdate change s)) = settled (trace s)"
  "patched (trace (delayedUpdate change s)) = patched (trace s)"
  by (cases "changeTimers s change"; simp add: delayedUpdate_found delayedUpdate_absent)+

lemma consistent_delayedUpdate: "consistent s \<Longrightarrow> consistent (delayedUpdate change s)"
proof (cases "changeTimers s change")
  case None
  assume "consistent s"
  with None linked_afterFunc [of "changeTimers s" "changeHeap s" change]
  show ?thesis by (simp add: consistent_def delayedUpdate_absent)
next
  case (Some t)
  assume "consistent s"
  with Some linked_reset [of "changeTimers s" "changeHeap s" change t "clock s" "delay s"]
  show ?thesis by (simp add: consistent_def delayedUpdate_found timer_Reset_def)
qed

lemma queueDeployment_found:
  "updateTimers s (key deployment) = Some t \<Longrightarrow>
   queueDeployment deployment s =
     s\<lparr>updateHeap := (updateHeap s)[t := (updateHeap s ! t)\<lparr>when := Some (clock s + delay s)\<rparr>],
       trace := trace s @ [(clock s, Log (''resetting timer on queued update to deployment '' @ obj_Name deployment))]\<rparr>"
  by (simp add: queueDeployment_def queueDeployment_then_def emit_def timer_Reset_def key_def Let_def)

lemma queueDeployment_absent:
  "updateTimers s (key deployment) = None \<Longrightarrow>
   queueDeployment deployment s =
     s\<lparr>updateTimers := (updateTimers s)(key deployment \<mapsto> length (updateHeap s)),
       updateHeap := updateHeap s @ [\<lparr>when = Some (clock s + delay s), captured = key deployment\<rparr>],
       trace := trace s @ [(clock s, Log (''queuing update to deployment '' @ obj_Name deployment))]\<rparr>"
  by (simp add: queueDeployment_def queueDeployment_then_def emit_def time_AfterFunc_def key_def Let_def)

lemma queueDeployment_frame [simp]:
  "clock (queueDeployment deployment s) = clock s"
  "delay (queueDeployment deployment s) = delay s"
  "crashed (queueDeployment deployment s) = crashed s"
  "changeTimers (queueDeployment deployment s) = changeTimers s"
  "changeHeap (queueDeployment deployment s) = changeHeap s"
  "settled (trace (queueDeployment deployment s)) = settled (trace s)"
  "patched (trace (queueDeployment deployment s)) = patched (trace s)"
  by (cases "updateTimers s (key deployment)"; simp add: queueDeployment_found queueDeployment_absent)+

lemma consistent_queueDeployment: "consistent s \<Longrightarrow> consistent (queueDeployment deployment s)"
proof (cases "updateTimers s (key deployment)")
  case None
  assume "consistent s"
  with None linked_afterFunc [of "updateTimers s" "updateHeap s" "key deployment"]
  show ?thesis by (simp add: consistent_def queueDeployment_absent)
next
  case (Some t)
  assume "consistent s"
  with Some linked_reset [of "updateTimers s" "updateHeap s" "key deployment" t "clock s" "delay s"]
  show ?thesis by (simp add: consistent_def queueDeployment_found timer_Reset_def)
qed

lemma foldl_queue_frame [simp]:
  "clock (foldl (\<lambda>s d. queueDeployment d s) s ds) = clock s"
  "delay (foldl (\<lambda>s d. queueDeployment d s) s ds) = delay s"
  "crashed (foldl (\<lambda>s d. queueDeployment d s) s ds) = crashed s"
  "changeTimers (foldl (\<lambda>s d. queueDeployment d s) s ds) = changeTimers s"
  "changeHeap (foldl (\<lambda>s d. queueDeployment d s) s ds) = changeHeap s"
  "settled (trace (foldl (\<lambda>s d. queueDeployment d s) s ds)) = settled (trace s)"
  "patched (trace (foldl (\<lambda>s d. queueDeployment d s) s ds)) = patched (trace s)"
  by (induction ds arbitrary: s; simp)+

lemma consistent_foldl_queue: "consistent s \<Longrightarrow> consistent (foldl (\<lambda>s d. queueDeployment d s) s ds)"
  by (induction ds arbitrary: s) (simp_all add: consistent_queueDeployment)

lemma findAndQueueDeployments_fails:
  "List a (clock s) = Inl err \<Longrightarrow>
   findAndQueueDeployments a change s =
     s\<lparr>trace := trace s @ [(clock s, Call_findAndQueueDeployments change), (clock s, Api_List),
                             (clock s, Panic (message err))],
       crashed := True\<rparr>"
  by (simp add: findAndQueueDeployments_def emit_def)

lemma findAndQueueDeployments_lists:
  "List a (clock s) = Inr items \<Longrightarrow>
   findAndQueueDeployments a change s =
     foldl (\<lambda>s d. queueDeployment d s)
       (s\<lparr>trace := trace s @ [(clock s, Call_findAndQueueDeployments change), (clock s, Api_List)]\<rparr>)
       (filter (depends change) items)"
  by (simp add: findAndQueueDeployments_def emit_def deploymentLoop_eq)

lemma findAndQueueDeployments_frame [simp]:
  "clock (findAndQueueDeployments a change s) = clock s"
  "delay (findAndQueueDeployments a change s) = delay s"
  "changeTimers (findAndQueueDeployments a change s) = changeTimers s"
  "changeHeap (findAndQueueDeployments a change s) = changeHeap s"
  "settled (trace (findAndQueueDeployments a change s)) = settled (trace s) @ [(clock s, change)]"
  "patched (trace (findAndQueueDeployments a change s)) = patched (trace s)"
  by (cases "List a (clock s)";
      simp add: findAndQueueDeployments_fails findAndQueueDeployments_lists)+

lemma consistent_findAndQueueDeployments: "consistent s \<Longrightarrow> consistent (findAndQueueDeployments a change s)"
proof (cases "List a (clock s)")
  case (Inl err)
  assume "consistent s"
  then show ?thesis by (simp add: findAndQueueDeployments_fails Inl consistent_def)
next
  case (Inr items)
  assume "consistent s"
  then have "consistent (s\<lparr>trace := trace s @ [(clock s, Call_findAndQueueDeployments change), (clock s, Api_List)]\<rparr>)"
    by (simp add: consistent_def)
  then show ?thesis by (simp add: findAndQueueDeployments_lists Inr consistent_foldl_queue)
qed

lemma patchDeployment_trace:
  "\<exists>es. patchDeployment a deployment s = s\<lparr>trace := trace s @ es\<rparr>
        \<and> settled es = [] \<and> patched es = [(clock s, deployment)]"
  by (auto simp: patchDeployment_def emit_def touch_stamped Let_def split: sum.splits)

lemma patchDeployment_frame [simp]:
  "clock (patchDeployment a deployment s) = clock s"
  "delay (patchDeployment a deployment s) = delay s"
  "crashed (patchDeployment a deployment s) = crashed s"
  "changeTimers (patchDeployment a deployment s) = changeTimers s"
  "changeHeap (patchDeployment a deployment s) = changeHeap s"
  "updateTimers (patchDeployment a deployment s) = updateTimers s"
  "updateHeap (patchDeployment a deployment s) = updateHeap s"
  "settled (trace (patchDeployment a deployment s)) = settled (trace s)"
  "patched (trace (patchDeployment a deployment s)) = patched (trace s) @ [(clock s, deployment)]"
  using patchDeployment_trace [of a deployment s] by auto

lemma consistent_patchDeployment: "consistent s \<Longrightarrow> consistent (patchDeployment a deployment s)"
  by (simp add: consistent_def)

section \<open>Lemmas: Expiry and the passing of time\<close>

lemma dueAt_armed: "dueAt now heap t \<Longrightarrow> t < length heap \<and> when (heap ! t) \<noteq> None"
  by (auto simp: dueAt_def split: option.splits)

lemma changeFunc_frame [simp]:
  "clock (changeFunc a c s) = clock s"
  "delay (changeFunc a c s) = delay s"
  "changeTimers (changeFunc a c s) = (changeTimers s)(c := None)"
  "changeHeap (changeFunc a c s) = changeHeap s"
  "settled (trace (changeFunc a c s)) = settled (trace s) @ [(clock s, c)]"
  "patched (trace (changeFunc a c s)) = patched (trace s)"
  by (simp_all add: changeFunc_def)

lemma updateFunc_frame [simp]:
  "clock (updateFunc a dep s) = clock s"
  "delay (updateFunc a dep s) = delay s"
  "crashed (updateFunc a dep s) = crashed s"
  "changeTimers (updateFunc a dep s) = changeTimers s"
  "changeHeap (updateFunc a dep s) = changeHeap s"
  "updateTimers (updateFunc a dep s) = (updateTimers s)(dep := None)"
  "updateHeap (updateFunc a dep s) = updateHeap s"
  "settled (trace (updateFunc a dep s)) = settled (trace s)"
  "patched (trace (updateFunc a dep s)) = patched (trace s) @ [(clock s, dep)]"
  by (simp_all add: updateFunc_def)

lemma stepChange_eq:
  "stepChange a s t =
     (if \<not> crashed s \<and> dueAt (clock s) (changeHeap s) t
      then changeFunc a (captured (changeHeap s ! t))
             (s\<lparr>changeHeap := (changeHeap s)[t := (changeHeap s ! t)\<lparr>when := None\<rparr>]\<rparr>)
      else s)"
  by (simp add: stepChange_def fireChange_def go_def)

lemma stepUpdate_eq:
  "stepUpdate a s t =
     (if \<not> crashed s \<and> dueAt (clock s) (updateHeap s) t
      then updateFunc a (captured (updateHeap s ! t))
             (s\<lparr>updateHeap := (updateHeap s)[t := (updateHeap s ! t)\<lparr>when := None\<rparr>]\<rparr>)
      else s)"
  by (simp add: stepUpdate_def fireUpdate_def go_def)

lemma stepChange_fired:
  assumes "\<not> crashed s" and "dueAt (clock s) (changeHeap s) t"
  shows "changeTimers (stepChange a s t) = (changeTimers s)(captured (changeHeap s ! t) := None)"
    and "changeHeap (stepChange a s t) = (changeHeap s)[t := (changeHeap s ! t)\<lparr>when := None\<rparr>]"
    and "settled (trace (stepChange a s t)) = settled (trace s) @ [(clock s, captured (changeHeap s ! t))]"
  using assms by (simp_all add: stepChange_eq)

lemma stepUpdate_fired:
  assumes "\<not> crashed s" and "dueAt (clock s) (updateHeap s) t"
  shows "updateTimers (stepUpdate a s t) = (updateTimers s)(captured (updateHeap s ! t) := None)"
    and "updateHeap (stepUpdate a s t) = (updateHeap s)[t := (updateHeap s ! t)\<lparr>when := None\<rparr>]"
    and "patched (trace (stepUpdate a s t)) = patched (trace s) @ [(clock s, captured (updateHeap s ! t))]"
  using assms by (simp_all add: stepUpdate_eq)

lemma consistent_stepChange: "consistent s \<Longrightarrow> consistent (stepChange a s t)"
proof (cases "\<not> crashed s \<and> dueAt (clock s) (changeHeap s) t")
  case False
  assume "consistent s"
  with False show ?thesis by (auto simp: stepChange_eq)
next
  case True
  assume ok: "consistent s"
  let ?s1 = "s\<lparr>changeHeap := (changeHeap s)[t := (changeHeap s ! t)\<lparr>when := None\<rparr>],
               changeTimers := (changeTimers s)(captured (changeHeap s ! t) := None)\<rparr>"
  from True have due: "dueAt (clock s) (changeHeap s) t" by simp
  from ok dueAt_armed [OF due] have "consistent ?s1"
    by (simp add: consistent_def linked_expire)
  then have "consistent (findAndQueueDeployments a (captured (changeHeap s ! t)) ?s1)"
    by (rule consistent_findAndQueueDeployments)
  with True show ?thesis by (simp add: stepChange_eq changeFunc_def)
qed

lemma consistent_stepUpdate: "consistent s \<Longrightarrow> consistent (stepUpdate a s t)"
proof (cases "\<not> crashed s \<and> dueAt (clock s) (updateHeap s) t")
  case False
  assume "consistent s"
  with False show ?thesis by (auto simp: stepUpdate_eq)
next
  case True
  assume ok: "consistent s"
  from True have due: "dueAt (clock s) (updateHeap s) t" by simp
  from ok dueAt_armed [OF due] True show ?thesis
    by (simp add: stepUpdate_eq consistent_def linked_expire)
qed

lemma stepChange_frame [simp]:
  "clock (stepChange a s t) = clock s"
  "delay (stepChange a s t) = delay s"
  "patched (trace (stepChange a s t)) = patched (trace s)"
  by (simp_all add: stepChange_eq)

lemma stepUpdate_frame [simp]:
  "clock (stepUpdate a s t) = clock s"
  "delay (stepUpdate a s t) = delay s"
  "crashed (stepUpdate a s t) = crashed s"
  "changeTimers (stepUpdate a s t) = changeTimers s"
  "changeHeap (stepUpdate a s t) = changeHeap s"
  "settled (trace (stepUpdate a s t)) = settled (trace s)"
  by (simp_all add: stepUpdate_eq)

lemma foldl_stepUpdate_frame [simp]:
  "clock (foldl (stepUpdate a) s ts) = clock s"
  "delay (foldl (stepUpdate a) s ts) = delay s"
  "crashed (foldl (stepUpdate a) s ts) = crashed s"
  "changeTimers (foldl (stepUpdate a) s ts) = changeTimers s"
  "changeHeap (foldl (stepUpdate a) s ts) = changeHeap s"
  "settled (trace (foldl (stepUpdate a) s ts)) = settled (trace s)"
  by (induction ts arbitrary: s; simp)+

lemma foldl_stepChange_frame [simp]:
  "clock (foldl (stepChange a) s ts) = clock s"
  "delay (foldl (stepChange a) s ts) = delay s"
  "patched (trace (foldl (stepChange a) s ts)) = patched (trace s)"
  by (induction ts arbitrary: s; simp)+

lemma consistent_foldl_stepChange: "consistent s \<Longrightarrow> consistent (foldl (stepChange a) s ts)"
  by (induction ts arbitrary: s) (simp_all add: consistent_stepChange)

lemma consistent_foldl_stepUpdate: "consistent s \<Longrightarrow> consistent (foldl (stepUpdate a) s ts)"
  by (induction ts arbitrary: s) (simp_all add: consistent_stepUpdate)

lemma consistent_clock: "consistent (s\<lparr>clock := c\<rparr>) = consistent s"
  by (simp add: consistent_def)

lemma consistent_tick: "consistent s \<Longrightarrow> consistent (tick a s)"
  by (simp add: tick_def Let_def consistent_clock consistent_foldl_stepChange consistent_foldl_stepUpdate)

lemma consistent_ticks: "consistent s \<Longrightarrow> consistent (ticks a n s)"
  by (induction n arbitrary: s) (simp_all add: consistent_tick)

lemma consistent_sleepUntil: "consistent s \<Longrightarrow> consistent (sleepUntil a t s)"
  by (simp add: sleepUntil_def consistent_ticks)

lemma consistent_run: "consistent s \<Longrightarrow> consistent (run a evs s)"
  by (induction evs arbitrary: s) (auto simp: Let_def consistent_sleepUntil consistent_delayedUpdate)

lemma consistent_init: "consistent (init d)"
  by (simp add: consistent_def init_def linked_empty)

lemma tick_frame [simp]:
  "clock (tick a s) = Suc (clock s)"
  "delay (tick a s) = delay s"
  by (simp_all add: tick_def Let_def)

lemma ticks_frame [simp]:
  "clock (ticks a n s) = clock s + n"
  "delay (ticks a n s) = delay s"
  by (induction n arbitrary: s; simp)+

lemma sleepUntil_frame [simp]:
  "clock (sleepUntil a t s) = max (clock s) t"
  "delay (sleepUntil a t s) = delay s"
  by (simp_all add: sleepUntil_def)

lemma ticks_add: "ticks a (m + n) s = ticks a n (ticks a m s)"
  by (induction m arbitrary: s) simp_all

lemma crashed_findAndQueueDeployments: "crashed s \<Longrightarrow> crashed (findAndQueueDeployments a c s)"
  by (cases "List a (clock s)") (simp_all add: findAndQueueDeployments_fails findAndQueueDeployments_lists)

lemma crashed_stepChange: "crashed s \<Longrightarrow> stepChange a s t = s"
  by (simp add: stepChange_eq)

lemma crashed_foldl_stepChange: "crashed s \<Longrightarrow> foldl (stepChange a) s ts = s"
  by (induction ts) (simp_all add: crashed_stepChange)

lemma crashed_stepChange_mono: "crashed s \<Longrightarrow> crashed (stepChange a s t)"
  by (simp add: crashed_stepChange)

lemma crashed_tick: "crashed s \<Longrightarrow> crashed (tick a s)"
  by (simp add: tick_def Let_def crashed_foldl_stepChange)

lemma crashed_ticks: "crashed s \<Longrightarrow> crashed (ticks a n s)"
  by (induction n arbitrary: s) (simp_all add: crashed_tick)

lemma crashed_sleepUntil: "crashed s \<Longrightarrow> crashed (sleepUntil a t s)"
  by (simp add: sleepUntil_def crashed_ticks)

lemma crashed_run: "crashed s \<Longrightarrow> crashed (run a evs s)"
  by (induction evs arbitrary: s) (auto simp: Let_def crashed_sleepUntil)

lemma crashed_foldl_stepUpdate: "crashed s \<Longrightarrow> foldl (stepUpdate a) s ts = s"
  by (induction ts) (simp_all add: stepUpdate_eq)

lemma crashed_tick_eq: "crashed s \<Longrightarrow> tick a s = s\<lparr>clock := clock s + 1\<rparr>"
  by (simp add: tick_def Let_def crashed_foldl_stepChange crashed_foldl_stepUpdate)

lemma crashed_ticks_trace: "crashed s \<Longrightarrow> trace (ticks a n s) = trace s"
proof (induction n arbitrary: s)
  case 0
  then show ?case by simp
next
  case (Suc n)
  from Suc.prems have "crashed (s\<lparr>clock := clock s + 1\<rparr>)" by simp
  from Suc.IH [OF this] Suc.prems show ?case by (simp add: crashed_tick_eq)
qed

lemma crashed_run_trace: "crashed s \<Longrightarrow> trace (run a evs s) = trace s"
proof (induction evs arbitrary: s)
  case Nil
  then show ?case by simp
next
  case (Cons e evs)
  obtain t c where e: "e = (t, c)" by (cases e)
  from Cons.prems have 1: "crashed (sleepUntil a t s)" by (rule crashed_sleepUntil)
  from Cons.prems have 2: "trace (sleepUntil a t s) = trace s"
    by (simp add: sleepUntil_def crashed_ticks_trace)
  from Cons.IH [OF 1] 1 2 show ?case by (simp add: e Let_def)
qed

lemma crashed_quiet:
  "crashed s \<Longrightarrow> trace (sleepUntil a T (run a evs s)) = trace s"
  using crashed_run [of s a evs]
  by (simp add: sleepUntil_def crashed_ticks_trace crashed_run_trace)

lemma alive_findAndQueueDeployments:
  "List a (clock s) = Inr items \<Longrightarrow> crashed (findAndQueueDeployments a c s) = crashed s"
  by (simp add: findAndQueueDeployments_lists)

lemma alive_stepChange:
  "\<exists>items. List a (clock s) = Inr items \<Longrightarrow> crashed (stepChange a s t) = crashed s"
  by (auto simp: stepChange_eq changeFunc_def alive_findAndQueueDeployments)

lemma alive_foldl_stepChange:
  "\<exists>items. List a (clock s) = Inr items \<Longrightarrow> crashed (foldl (stepChange a) s ts) = crashed s"
proof (induction ts arbitrary: s)
  case Nil
  show ?case by simp
next
  case (Cons t ts)
  from Cons.prems have "\<exists>items. List a (clock (stepChange a s t)) = Inr items" by simp
  from Cons.IH [OF this] alive_stepChange [OF Cons.prems] show ?case by simp
qed

lemma alive_tick:
  "\<exists>items. List a (clock s) = Inr items \<Longrightarrow> crashed (tick a s) = crashed s"
  by (simp add: tick_def Let_def alive_foldl_stepChange)

lemma alive_ticks:
  "\<forall>t. clock s \<le> t \<and> t < clock s + n \<longrightarrow> (\<exists>items. List a t = Inr items) \<Longrightarrow>
   crashed (ticks a n s) = crashed s"
proof (induction n arbitrary: s)
  case 0
  show ?case by simp
next
  case (Suc n)
  from Suc.prems have 1: "\<exists>items. List a (clock s) = Inr items" by simp
  from Suc.prems
  have "\<forall>t. clock (tick a s) \<le> t \<and> t < clock (tick a s) + n \<longrightarrow> (\<exists>items. List a t = Inr items)"
    by simp
  from Suc.IH [OF this] alive_tick [OF 1] show ?case by simp
qed

lemma alive_sleepUntil:
  "\<forall>t < T. \<exists>items. List a t = Inr items \<Longrightarrow> crashed (sleepUntil a T s) = crashed s"
proof -
  assume h: "\<forall>t < T. \<exists>items. List a t = Inr items"
  have "\<forall>t. clock s \<le> t \<and> t < clock s + (T - clock s) \<longrightarrow> (\<exists>items. List a t = Inr items)"
  proof (intro allI impI)
    fix t assume "clock s \<le> t \<and> t < clock s + (T - clock s)"
    then have "t < T" by arith
    with h show "\<exists>items. List a t = Inr items" by simp
  qed
  from alive_ticks [OF this] show ?thesis by (simp add: sleepUntil_def)
qed

section \<open>Lemmas: The countdown of one change\<close>

lemma upt_split: "t < n \<Longrightarrow> [0 ..< n] = [0 ..< t] @ t # [Suc t ..< n]"
proof -
  assume t: "t < n"
  then have "[0 ..< n] = [0 ..< t + (n - t)]" by simp
  also have "\<dots> = [0 ..< t] @ [t ..< t + (n - t)]" by (rule upt_add_eq_append) simp
  also have "[t ..< t + (n - t)] = t # [Suc t ..< n]" using t by (simp add: upt_conv_Cons)
  finally show ?thesis .
qed

lemma counting_pointer:
  assumes "counting d t0 w s"
  shows "t0 < length (changeHeap s)" and "captured (changeHeap s ! t0) = d"
  using assms linkedD1 [of "changeTimers s" "changeHeap s" d t0]
  by (simp_all add: counting_def consistent_def)

lemma due_owner:
  assumes "consistent s" and "dueAt (clock s) (changeHeap s) t"
  shows "changeTimers s (captured (changeHeap s ! t)) = Some t"
  using assms dueAt_armed [OF assms(2)] linkedD2 [of "changeTimers s" "changeHeap s" t]
  by (simp add: consistent_def)

lemma stepChange_counting:
  assumes c: "counting d t0 w s" and t: "t \<noteq> t0 \<or> clock s < w"
  shows "counting d t0 w (stepChange a s t) \<and> settledFor d (stepChange a s t) = settledFor d s"
proof (cases "\<not> crashed s \<and> dueAt (clock s) (changeHeap s) t")
  case False
  with c show ?thesis by (auto simp: stepChange_eq)
next
  case True
  then have due: "dueAt (clock s) (changeHeap s) t" by simp
  from c have consistent: "consistent s" and m: "changeTimers s d = Some t0" and w: "when (changeHeap s ! t0) = Some w"
    by (simp_all add: counting_def)
  have ne: "t \<noteq> t0"
  proof
    assume "t = t0"
    with due w have "w \<le> clock s" by (simp add: dueAt_def)
    with t \<open>t = t0\<close> show False by simp
  qed
  from due_owner [OF consistent due] m ne have other: "captured (changeHeap s ! t) \<noteq> d" by auto
  from True have alive: "\<not> crashed s" by simp
  note fired = stepChange_fired [OF alive due, of a]
  have "consistent (stepChange a s t)" using consistent by (rule consistent_stepChange)
  with m w ne other have "counting d t0 w (stepChange a s t)"
    by (simp add: counting_def fired)
  moreover from other have "settledFor d (stepChange a s t) = settledFor d s"
    by (simp add: settledFor_def fired)
  ultimately show ?thesis by simp
qed

lemma foldl_stepChange_counting:
  assumes "counting d t0 w s" and "t0 \<notin> set ts \<or> clock s < w"
  shows "counting d t0 w (foldl (stepChange a) s ts)
         \<and> settledFor d (foldl (stepChange a) s ts) = settledFor d s"
  using assms
proof (induction ts arbitrary: s)
  case Nil
  then show ?case by simp
next
  case (Cons t ts)
  from Cons.prems have "t \<noteq> t0 \<or> clock s < w" by auto
  from stepChange_counting [OF Cons.prems(1) this, of a]
  have 1: "counting d t0 w (stepChange a s t)" "settledFor d (stepChange a s t) = settledFor d s"
    by simp_all
  from Cons.prems have "t0 \<notin> set ts \<or> clock (stepChange a s t) < w" by auto
  from Cons.IH [OF 1(1) this] 1(2) show ?case by simp
qed

lemma stepChange_idle:
  assumes i: "idle d s"
  shows "idle d (stepChange a s t) \<and> settledFor d (stepChange a s t) = settledFor d s"
proof (cases "\<not> crashed s \<and> dueAt (clock s) (changeHeap s) t")
  case False
  with i show ?thesis by (auto simp: stepChange_eq)
next
  case True
  then have due: "dueAt (clock s) (changeHeap s) t" by simp
  from i have consistent: "consistent s" and m: "changeTimers s d = None" by (simp_all add: idle_def)
  from due_owner [OF consistent due] m have other: "captured (changeHeap s ! t) \<noteq> d" by auto
  from True have alive: "\<not> crashed s" by simp
  note fired = stepChange_fired [OF alive due, of a]
  have "consistent (stepChange a s t)" using consistent by (rule consistent_stepChange)
  with m have "idle d (stepChange a s t)" by (simp add: idle_def fired)
  moreover from other have "settledFor d (stepChange a s t) = settledFor d s"
    by (simp add: settledFor_def fired)
  ultimately show ?thesis by simp
qed

lemma foldl_stepChange_idle:
  "idle d s \<Longrightarrow> idle d (foldl (stepChange a) s ts)
     \<and> settledFor d (foldl (stepChange a) s ts) = settledFor d s"
proof (induction ts arbitrary: s)
  case Nil
  then show ?case by simp
next
  case (Cons t ts)
  from stepChange_idle [OF Cons.prems, of a t] Cons.IH [of "stepChange a s t"]
  show ?case by simp
qed

lemma stepChange_fires:
  assumes c: "counting d t0 w s" and due: "w \<le> clock s" and alive: "\<not> crashed s"
  shows "idle d (stepChange a s t0) \<and> settledFor d (stepChange a s t0) = settledFor d s @ [clock s]"
proof -
  from c have consistent: "consistent s" and m: "changeTimers s d = Some t0" and w: "when (changeHeap s ! t0) = Some w"
    by (simp_all add: counting_def)
  from counting_pointer [OF c] w due have d: "dueAt (clock s) (changeHeap s) t0"
    by (simp add: dueAt_def)
  note fired = stepChange_fired [OF alive d, of a]
  have "consistent (stepChange a s t0)" using consistent by (rule consistent_stepChange)
  with counting_pointer [OF c] have "idle d (stepChange a s t0)"
    by (simp add: idle_def fired)
  moreover from counting_pointer [OF c]
  have "settledFor d (stepChange a s t0) = settledFor d s @ [clock s]"
    by (simp add: settledFor_def fired)
  ultimately show ?thesis by simp
qed

lemma settledFor_update_phase [simp]:
  "settledFor d ((foldl (stepUpdate a) s ts)\<lparr>clock := c\<rparr>) = settledFor d s"
  by (simp add: settledFor_def)

lemma counting_update_phase:
  "counting d t0 w s \<Longrightarrow> counting d t0 w ((foldl (stepUpdate a) s ts)\<lparr>clock := c\<rparr>)"
  using consistent_foldl_stepUpdate [of s a ts]
  by (simp add: counting_def consistent_clock)

lemma idle_update_phase:
  "idle d s \<Longrightarrow> idle d ((foldl (stepUpdate a) s ts)\<lparr>clock := c\<rparr>)"
  using consistent_foldl_stepUpdate [of s a ts]
  by (simp add: idle_def consistent_clock)

lemma tick_counting:
  assumes "counting d t0 w s" and "clock s < w"
  shows "counting d t0 w (tick a s) \<and> settledFor d (tick a s) = settledFor d s"
  using foldl_stepChange_counting [OF assms(1), of "[0 ..< length (changeHeap s)]" a] assms(2)
  by (simp add: tick_def Let_def counting_update_phase)

lemma tick_idle:
  assumes "idle d s"
  shows "idle d (tick a s) \<and> settledFor d (tick a s) = settledFor d s"
  using foldl_stepChange_idle [OF assms, of a "[0 ..< length (changeHeap s)]"]
  by (simp add: tick_def Let_def idle_update_phase)

lemma tick_fires:
  assumes c: "counting d t0 w s" and due: "w \<le> clock s" and alive: "\<not> crashed (tick a s)"
  shows "idle d (tick a s) \<and> settledFor d (tick a s) = settledFor d s @ [clock s]"
proof -
  let ?n = "length (changeHeap s)"
  let ?s1 = "foldl (stepChange a) s [0 ..< t0]"
  let ?s2 = "stepChange a ?s1 t0"
  let ?s3 = "foldl (stepChange a) ?s2 [Suc t0 ..< ?n]"
  from counting_pointer [OF c] have t0: "t0 < ?n" by simp
  then have split: "[0 ..< ?n] = [0 ..< t0] @ t0 # [Suc t0 ..< ?n]"
    by (rule upt_split)
  have all: "foldl (stepChange a) s [0 ..< ?n] = ?s3"
    by (subst split) simp
  have alive3: "\<not> crashed ?s3"
    using alive by (simp add: tick_def Let_def all)
  have alive1: "\<not> crashed ?s1"
  proof
    assume x: "crashed ?s1"
    then have "?s2 = ?s1" by (rule crashed_stepChange)
    with x have "?s3 = ?s1" by (simp add: crashed_foldl_stepChange)
    with x alive3 show False by simp
  qed
  have 1: "counting d t0 w ?s1" "settledFor d ?s1 = settledFor d s"
    using foldl_stepChange_counting [OF c, of "[0 ..< t0]" a] by simp_all
  have 2: "idle d ?s2" "settledFor d ?s2 = settledFor d s @ [clock s]"
    using stepChange_fires [OF 1(1) _ alive1, of a] due 1(2) by simp_all
  have 3: "idle d ?s3" "settledFor d ?s3 = settledFor d s @ [clock s]"
    using foldl_stepChange_idle [OF 2(1), of a "[Suc t0 ..< ?n]"] 2(2) by simp_all
  show ?thesis
    using 3 by (simp add: tick_def Let_def all idle_update_phase)
qed

lemma ticks_counting:
  "counting d t0 w s \<Longrightarrow> clock s + n \<le> w \<Longrightarrow>
   counting d t0 w (ticks a n s) \<and> settledFor d (ticks a n s) = settledFor d s"
proof (induction n arbitrary: s)
  case 0
  then show ?case by simp
next
  case (Suc n)
  from Suc.prems have "clock s < w" by simp
  from tick_counting [OF Suc.prems(1) this, of a]
  have 1: "counting d t0 w (tick a s)" "settledFor d (tick a s) = settledFor d s" by simp_all
  from Suc.prems have "clock (tick a s) + n \<le> w" by simp
  from Suc.IH [OF 1(1) this] 1(2) show ?case by simp
qed

lemma ticks_idle:
  "idle d s \<Longrightarrow> idle d (ticks a n s) \<and> settledFor d (ticks a n s) = settledFor d s"
proof (induction n arbitrary: s)
  case 0
  then show ?case by simp
next
  case (Suc n)
  from tick_idle [OF Suc.prems, of a] Suc.IH [of "tick a s"]
  show ?case by simp
qed

lemma ticks_fires:
  assumes c: "counting d t0 w s" and before: "clock s \<le> w" and after: "w < clock s + n"
    and alive: "\<not> crashed s" and lists: "\<forall>t \<le> w. \<exists>items. List a t = Inr items"
  shows "idle d (ticks a n s) \<and> settledFor d (ticks a n s) = settledFor d s @ [w]"
proof -
  let ?m = "w - clock s"
  let ?k = "n - Suc ?m"
  let ?s1 = "ticks a ?m s"
  from before after have n: "n = ?m + Suc ?k" by simp
  have run: "ticks a n s = ticks a ?k (tick a ?s1)"
    by (subst n, subst ticks_add) simp
  from ticks_counting [OF c, of ?m a] before
  have 1: "counting d t0 w ?s1" "settledFor d ?s1 = settledFor d s" by simp_all
  have clk: "clock ?s1 = w" using before by simp
  have "\<forall>t. clock s \<le> t \<and> t < clock s + ?m \<longrightarrow> (\<exists>items. List a t = Inr items)"
    using lists before by simp
  from alive_ticks [OF this] alive have alive1: "\<not> crashed ?s1" by simp
  from lists clk have "\<exists>items. List a (clock ?s1) = Inr items" by simp
  from alive_tick [OF this] alive1 have alive2: "\<not> crashed (tick a ?s1)" by simp
  from tick_fires [OF 1(1) _ alive2] clk 1(2)
  have 2: "idle d (tick a ?s1)" "settledFor d (tick a ?s1) = settledFor d s @ [w]" by simp_all
  from ticks_idle [OF 2(1), of a ?k] 2(2) show ?thesis by (simp add: run)
qed

lemma delayedUpdate_same_idle:
  assumes "idle d s"
  shows "counting d (length (changeHeap s)) (clock s + delay s) (delayedUpdate d s)"
  using assms consistent_delayedUpdate [of s d]
  by (simp add: idle_def counting_def delayedUpdate_absent)

lemma delayedUpdate_same_counting:
  assumes c: "counting d t0 w s"
  shows "counting d t0 (clock s + delay s) (delayedUpdate d s)"
  using assms consistent_delayedUpdate [of s d] counting_pointer [OF c]
  by (simp add: counting_def delayedUpdate_found)

lemma delayedUpdate_other_idle:
  assumes "idle d s" and "c \<noteq> d"
  shows "idle d (delayedUpdate c s)"
  using assms consistent_delayedUpdate [of s c]
  by (cases "changeTimers s c") (simp_all add: idle_def delayedUpdate_absent delayedUpdate_found)

lemma delayedUpdate_other_counting:
  assumes c: "counting d t0 w s" and ne: "c \<noteq> d"
  shows "counting d t0 w (delayedUpdate c s)"
proof (cases "changeTimers s c")
  case None
  with c ne consistent_delayedUpdate [of s c] counting_pointer [OF c]
  show ?thesis by (simp add: counting_def delayedUpdate_absent nth_append)
next
  case (Some t)
  from c have "consistent s" by (simp add: counting_def)
  with Some linkedD1 [of "changeTimers s" "changeHeap s" c t]
  have "captured (changeHeap s ! t) = c" by (simp add: consistent_def)
  with counting_pointer [OF c] ne have "t \<noteq> t0" by auto
  with c Some consistent_delayedUpdate [of s c]
  show ?thesis by (simp add: counting_def delayedUpdate_found)
qed

lemma settledFor_delayedUpdate [simp]: "settledFor d (delayedUpdate c s) = settledFor d s"
  by (simp add: settledFor_def)

section \<open>Lemmas: Runs of the change debouncer\<close>

lemma sleepUntil_counting:
  assumes "counting d t0 w s" and "T \<le> w"
  shows "counting d t0 w (sleepUntil a T s) \<and> settledFor d (sleepUntil a T s) = settledFor d s"
proof (cases "T \<le> clock s")
  case True
  with assms show ?thesis by (simp add: sleepUntil_def)
next
  case False
  with assms(2) have "clock s + (T - clock s) \<le> w" by simp
  from ticks_counting [OF assms(1) this] show ?thesis by (simp add: sleepUntil_def)
qed

lemma sleepUntil_idle:
  "idle d s \<Longrightarrow> idle d (sleepUntil a T s) \<and> settledFor d (sleepUntil a T s) = settledFor d s"
  by (simp add: sleepUntil_def ticks_idle)

lemma sleepUntil_fires:
  assumes "counting d t0 w s" and "clock s \<le> w" and "w < T" and "\<not> crashed s"
    and "\<forall>t \<le> w. \<exists>items. List a t = Inr items"
  shows "idle d (sleepUntil a T s) \<and> settledFor d (sleepUntil a T s) = settledFor d s @ [w]"
proof -
  from assms(2,3) have "w < clock s + (T - clock s)" by simp
  from ticks_fires [OF assms(1,2) this assms(4,5)] show ?thesis by (simp add: sleepUntil_def)
qed

lemma run_idle:
  "idle d s \<Longrightarrow> timesOf d evs = [] \<Longrightarrow>
   idle d (run a evs s) \<and> settledFor d (run a evs s) = settledFor d s"
proof (induction evs arbitrary: s)
  case Nil
  then show ?case by simp
next
  case (Cons e evs)
  obtain t c where e: "e = (t, c)" by (cases e)
  let ?s1 = "sleepUntil a t s"
  let ?s2 = "if crashed ?s1 then ?s1 else delayedUpdate c ?s1"
  from Cons.prems(2) e have ne: "c \<noteq> d" and rest: "timesOf d evs = []"
    by (auto simp: timesOf_def split: if_splits)
  from sleepUntil_idle [OF Cons.prems(1), of a t]
  have 1: "idle d ?s1" "settledFor d ?s1 = settledFor d s" by simp_all
  have 2: "idle d ?s2" "settledFor d ?s2 = settledFor d s"
    using 1 delayedUpdate_other_idle [OF 1(1) ne] by simp_all
  from Cons.IH [OF 2(1) rest] 2(2) show ?case by (simp add: e Let_def)
qed

lemma run_delay [simp]: "delay (run a evs s) = delay s"
  by (induction evs arbitrary: s) (auto simp: Let_def)

lemma spaced_hd: "spaced D t ts \<Longrightarrow> ts \<noteq> [] \<Longrightarrow> hd ts < t + D"
  by (cases ts) auto

lemma timesOf_Cons:
  "timesOf d ((t, c) # evs) = (if c = d then t # timesOf d evs else timesOf d evs)"
  by (simp add: timesOf_def)

lemma timesOf_bound:
  "\<forall>e \<in> set evs. t \<le> fst e \<Longrightarrow> \<forall>u \<in> set (timesOf d evs). t \<le> u"
  by (auto simp: timesOf_def)

lemma spaced_last: "spaced D t ts \<Longrightarrow> t \<le> last (t # ts)"
proof (induction ts arbitrary: t)
  case Nil
  show ?case by simp
next
  case (Cons u us)
  then have "t < u" "spaced D u us" by simp_all
  from Cons.IH [OF this(2)] this(1) show ?case by simp
qed

lemma listing_alive:
  assumes "\<forall>t \<le> w. \<exists>items. List a t = Inr items" and "T \<le> Suc w" and "\<not> crashed s"
  shows "\<not> crashed (sleepUntil a T s)"
proof -
  from assms(1,2) have "\<forall>t < T. \<exists>items. List a t = Inr items" by simp
  from alive_sleepUntil [OF this] assms(3) show ?thesis by simp
qed

lemma run_step:
  "\<not> crashed (sleepUntil a t s) \<Longrightarrow>
   run a ((t, c) # evs) s = run a evs (delayedUpdate c (sleepUntil a t s))"
  by (simp add: Let_def)

lemma run_counting:
  assumes "counting d t0 (tp + delay s) s"
    and "clock s \<le> tp + delay s"
    and "sorted (map fst evs)"
    and "\<forall>e \<in> set evs. clock s \<le> fst e"
    and "spaced (delay s) tp (timesOf d evs)"
    and "last (tp # timesOf d evs) + delay s < T"
    and "\<not> crashed s"
    and "\<forall>t \<le> last (tp # timesOf d evs) + delay s. \<exists>items. List a t = Inr items"
  shows "settledFor d (sleepUntil a T (run a evs s))
         = settledFor d s @ [last (tp # timesOf d evs) + delay s]"
  using assms
proof (induction evs arbitrary: s tp)
  case Nil
  from Nil.prems(8) have "\<forall>t \<le> tp + delay s. \<exists>items. List a t = Inr items"
    by (simp add: timesOf_def)
  from sleepUntil_fires [OF Nil.prems(1,2) _ Nil.prems(7) this, of T] Nil.prems(6)
  show ?case by (simp add: timesOf_def)
next
  case (Cons e evs)
  obtain t c where e: "e = (t, c)" by (cases e)
  let ?D = "delay s"
  let ?w = "tp + ?D"
  let ?s1 = "sleepUntil a t s"
  let ?s2 = "delayedUpdate c ?s1"
  from spaced_last [OF Cons.prems(5)] have wl: "?w \<le> last (tp # timesOf d (e # evs)) + ?D"
    by simp
  with Cons.prems(8) have lists_w: "\<forall>t \<le> ?w. \<exists>items. List a t = Inr items" by simp
  from Cons.prems(4) e have ct: "clock s \<le> t" by simp
  then have clk2: "clock ?s2 = t" by simp
  from Cons.prems(3) e have sorted': "sorted (map fst evs)" and later: "\<forall>e \<in> set evs. t \<le> fst e"
    by simp_all
  from later clk2 have later2: "\<forall>e \<in> set evs. clock ?s2 \<le> fst e" by simp
  show ?case
  proof (cases "t \<le> ?w")
    case True
    from listing_alive [OF lists_w _ Cons.prems(7), of t] True
    have alive1: "\<not> crashed ?s1" by simp
    then have alive2: "\<not> crashed ?s2" by simp
    have step: "run a (e # evs) s = run a evs ?s2"
      unfolding e using alive1 by (rule run_step)
    from sleepUntil_counting [OF Cons.prems(1) True, of a]
    have 1: "counting d t0 ?w ?s1" "settledFor d ?s1 = settledFor d s" by simp_all
    show ?thesis
    proof (cases "c = d")
      case same: True
      with Cons.prems(5) e have ch: "spaced ?D t (timesOf d evs)"
        by (simp_all add: timesOf_Cons)
      from delayedUpdate_same_counting [OF 1(1)] ct same
      have 2: "counting d t0 (t + delay ?s2) ?s2" by (simp add: max_def)
      have 3: "clock ?s2 \<le> t + delay ?s2" using ct by simp
      have times: "timesOf d (e # evs) = t # timesOf d evs"
        using e same by (simp add: timesOf_Cons)
      from Cons.prems(6) times
      have 4: "last (t # timesOf d evs) + delay ?s2 < T" by simp
      from ch have ch': "spaced (delay ?s2) t (timesOf d evs)" by simp
      from Cons.prems(8) times
      have 5: "\<forall>u \<le> last (t # timesOf d evs) + delay ?s2. \<exists>items. List a u = Inr items"
        by simp
      from Cons.IH [OF 2 3 sorted' later2 ch' 4 alive2 5] 1(2)
      show ?thesis unfolding step times by simp
    next
      case False
      then have times: "timesOf d (e # evs) = timesOf d evs" by (simp add: e timesOf_Cons)
      from delayedUpdate_other_counting [OF 1(1) False]
      have 2: "counting d t0 (tp + delay ?s2) ?s2" by simp
      from True ct have 3: "clock ?s2 \<le> tp + delay ?s2" by simp
      from Cons.prems(5,6) times
      have 4: "spaced (delay ?s2) tp (timesOf d evs)" "last (tp # timesOf d evs) + delay ?s2 < T"
        by simp_all
      from Cons.prems(8) times
      have 5: "\<forall>u \<le> last (tp # timesOf d evs) + delay ?s2. \<exists>items. List a u = Inr items"
        by simp
      from Cons.IH [OF 2 3 sorted' later2 4 alive2 5] 1(2) times
      show ?thesis by (simp add: step)
    qed
  next
    case late: False
    have ne: "c \<noteq> d"
    proof
      assume "c = d"
      with Cons.prems(5) e have "t - tp < ?D" "tp < t" by (simp_all add: timesOf_Cons)
      with late show False by simp
    qed
    then have times: "timesOf d (e # evs) = timesOf d evs" by (simp add: e timesOf_Cons)
    have none: "timesOf d evs = []"
    proof (rule ccontr)
      assume nonempty: "timesOf d evs \<noteq> []"
      from Cons.prems(5) times have "spaced ?D tp (timesOf d evs)" by simp
      from spaced_hd [OF this nonempty] have "hd (timesOf d evs) < ?w" .
      moreover from timesOf_bound [OF later, of d] nonempty have "t \<le> hd (timesOf d evs)" by simp
      ultimately show False using late by simp
    qed
    from late have "?w < t" by simp
    from sleepUntil_fires [OF Cons.prems(1,2) this Cons.prems(7) lists_w]
    have 1: "idle d ?s1" "settledFor d ?s1 = settledFor d s @ [?w]" by simp_all
    let ?s2' = "if crashed ?s1 then ?s1 else delayedUpdate c ?s1"
    from delayedUpdate_other_idle [OF 1(1) ne] 1
    have 2: "idle d ?s2'" "settledFor d ?s2' = settledFor d s @ [?w]" by simp_all
    from run_idle [OF 2(1) none, of a] 2(2)
    have 3: "idle d (run a evs ?s2')" "settledFor d (run a evs ?s2') = settledFor d s @ [?w]"
      by simp_all
    have step': "run a (e # evs) s = run a evs ?s2'" by (simp add: e Let_def)
    from sleepUntil_idle [OF 3(1), of a T] 3(2) times none
    show ?thesis by (simp add: step')
  qed
qed

lemma run_burst:
  assumes "idle d s"
    and "sorted (map fst evs)"
    and "\<forall>e \<in> set evs. clock s \<le> fst e"
    and "burst (delay s) (timesOf d evs)"
    and "last (timesOf d evs) + delay s < T"
    and "\<not> crashed s"
    and "\<forall>t \<le> last (timesOf d evs) + delay s. \<exists>items. List a t = Inr items"
  shows "settledFor d (sleepUntil a T (run a evs s))
         = settledFor d s @ [last (timesOf d evs) + delay s]"
  using assms
proof (induction evs arbitrary: s)
  case Nil
  then show ?case by (simp add: burst_def timesOf_def)
next
  case (Cons e evs)
  obtain t c where e: "e = (t, c)" by (cases e)
  let ?s1 = "sleepUntil a t s"
  let ?s2 = "delayedUpdate c ?s1"
  from Cons.prems(3) e have ct: "clock s \<le> t" by simp
  then have clk2: "clock ?s2 = t" by simp
  from Cons.prems(2) e have sorted': "sorted (map fst evs)" and later: "\<forall>e \<in> set evs. t \<le> fst e"
    by simp_all
  from later clk2 have later2: "\<forall>e \<in> set evs. clock ?s2 \<le> fst e" by simp
  from Cons.prems(4) have nonempty: "timesOf d (e # evs) \<noteq> []" by (auto simp: burst_def)
  have "t \<le> last (timesOf d (e # evs))"
  proof -
    from Cons.prems(2,3) e have "\<forall>x \<in> set (e # evs). t \<le> fst x" by auto
    from timesOf_bound [OF this, of d] nonempty show ?thesis by simp
  qed
  with Cons.prems(7) have lists_t: "\<forall>u \<le> t. \<exists>items. List a u = Inr items" by simp
  from listing_alive [OF lists_t _ Cons.prems(6), of t]
  have alive1: "\<not> crashed ?s1" by simp
  then have alive2: "\<not> crashed ?s2" by simp
  have step: "run a (e # evs) s = run a evs ?s2"
    unfolding e using alive1 by (rule run_step)
  from sleepUntil_idle [OF Cons.prems(1), of a t]
  have 1: "idle d ?s1" "settledFor d ?s1 = settledFor d s" by simp_all
  show ?case
  proof (cases "c = d")
    case True
    from delayedUpdate_same_idle [OF 1(1)] True ct
    have 2: "counting d (length (changeHeap ?s1)) (t + delay ?s2) ?s2" by (simp add: max_def)
    have 3: "clock ?s2 \<le> t + delay ?s2" using ct by simp
    have times: "timesOf d (e # evs) = t # timesOf d evs"
      using e True by (simp add: timesOf_Cons)
    from Cons.prems(4,5) times
    have 4: "spaced (delay ?s2) t (timesOf d evs)" "last (t # timesOf d evs) + delay ?s2 < T"
      by (simp_all add: burst_def)
    from Cons.prems(7) times
    have 5: "\<forall>u \<le> last (t # timesOf d evs) + delay ?s2. \<exists>items. List a u = Inr items"
      by simp
    from run_counting [OF 2 3 sorted' later2 4 alive2 5] 1(2)
    show ?thesis unfolding step times by simp
  next
    case False
    then have times: "timesOf d (e # evs) = timesOf d evs" by (simp add: e timesOf_Cons)
    from delayedUpdate_other_idle [OF 1(1) False] have 2: "idle d ?s2" .
    from Cons.prems(4,5) times
    have 4: "burst (delay ?s2) (timesOf d evs)" "last (timesOf d evs) + delay ?s2 < T"
      by simp_all
    from Cons.prems(7) times
    have 5: "\<forall>u \<le> last (timesOf d evs) + delay ?s2. \<exists>items. List a u = Inr items"
      by simp
    from Cons.IH [OF 2 sorted' later2 4 alive2 5] 1(2) times
    show ?thesis by (simp add: step)
  qed
qed

section \<open>Lemmas: One timer at its expiry, and the watch loops\<close>

lemma fireChange_early:
  "when (changeHeap s ! t) = Some w \<Longrightarrow> clock s < w \<Longrightarrow> fireChange s t = s"
  by (simp add: fireChange_def dueAt_def)

lemma fireChange_due:
  assumes "\<not> crashed s" and "t < length (changeHeap s)"
    and "changeHeap s ! t = \<lparr>when = Some w, captured = change\<rparr>" and "w \<le> clock s"
  shows "fireChange s t
           = s\<lparr>changeHeap := (changeHeap s)[t := \<lparr>when = None, captured = change\<rparr>],
               goroutines := goroutines s @ [Go_changeFunc change]\<rparr>"
  using assms by (simp add: fireChange_def dueAt_def)

lemma fireChange_once: "fireChange (fireChange s t) t = fireChange s t"
  by (simp add: fireChange_def dueAt_def)

lemma stepChange_due:
  assumes "\<not> crashed s" and "t < length (changeHeap s)"
    and "changeHeap s ! t = \<lparr>when = Some w, captured = change\<rparr>" and "w \<le> clock s"
  shows "stepChange a s t
           = findAndQueueDeployments a change
               (s\<lparr>changeHeap := (changeHeap s)[t := \<lparr>when = None, captured = change\<rparr>],
                  changeTimers := (changeTimers s)(change := None)\<rparr>)"
  using assms by (simp add: stepChange_eq dueAt_def changeFunc_def)

lemma fireUpdate_early:
  "when (updateHeap s ! t) = Some w \<Longrightarrow> clock s < w \<Longrightarrow> fireUpdate s t = s"
  by (simp add: fireUpdate_def dueAt_def)

lemma fireUpdate_due:
  assumes "\<not> crashed s" and "t < length (updateHeap s)"
    and "updateHeap s ! t = \<lparr>when = Some w, captured = dep\<rparr>" and "w \<le> clock s"
  shows "fireUpdate s t
           = s\<lparr>updateHeap := (updateHeap s)[t := \<lparr>when = None, captured = dep\<rparr>],
               goroutines := goroutines s @ [Go_updateFunc dep]\<rparr>"
  using assms by (simp add: fireUpdate_def dueAt_def)

lemma fireUpdate_once: "fireUpdate (fireUpdate s t) t = fireUpdate s t"
  by (simp add: fireUpdate_def dueAt_def)

lemma fireUpdate_others:
  "updateTimers (fireUpdate s t) = updateTimers s"
  "u \<noteq> t \<Longrightarrow> updateHeap (fireUpdate s t) ! u = updateHeap s ! u"
  by (simp_all add: fireUpdate_def)

lemma stepUpdate_due:
  assumes "\<not> crashed s" and "t < length (updateHeap s)"
    and "updateHeap s ! t = \<lparr>when = Some w, captured = dep\<rparr>" and "w \<le> clock s"
  shows "stepUpdate a s t
           = patchDeployment a dep
               (s\<lparr>updateHeap := (updateHeap s)[t := \<lparr>when = None, captured = dep\<rparr>],
                  updateTimers := (updateTimers s)(dep := None)\<rparr>)"
  using assms by (simp add: stepUpdate_eq dueAt_def updateFunc_def)

lemma go_runs:
  "\<not> crashed s \<Longrightarrow> i < length (goroutines s) \<Longrightarrow>
   go a i s = runFunc a (goroutines s ! i)
                (s\<lparr>goroutines := take i (goroutines s) @ drop (Suc i) (goroutines s)\<rparr>)"
  by (simp add: go_def)

lemma consistent_panic: "consistent s \<Longrightarrow> consistent ((emit e s)\<lparr>crashed := True\<rparr>)"
  by (simp add: consistent_def emit_def)

lemma consistent_configmapEvent: "consistent s \<Longrightarrow> consistent (configmapEvent event s)"
  by (cases "Object event") (simp_all add: configmapEvent_def consistent_panic consistent_delayedUpdate)

lemma consistent_secretEvent: "consistent s \<Longrightarrow> consistent (secretEvent event s)"
  by (cases "Object event") (simp_all add: secretEvent_def consistent_panic consistent_delayedUpdate)

lemma consistent_watchLoop:
  "(\<And>e s. consistent s \<Longrightarrow> consistent (body e s)) \<Longrightarrow> consistent s \<Longrightarrow>
   consistent (watchLoop body events s)"
  by (induction events arbitrary: s) simp_all

lemma pending_append:
  "pending (heap @ [x]) k
     = pending heap k @ (if when x \<noteq> None \<and> captured x = k then [length heap] else [])"
proof -
  have "[t \<leftarrow> [0 ..< length heap]. when ((heap @ [x]) ! t) \<noteq> None \<and> captured ((heap @ [x]) ! t) = k]
        = [t \<leftarrow> [0 ..< length heap]. when (heap ! t) \<noteq> None \<and> captured (heap ! t) = k]"
    by (rule filter_upt_cong) (simp add: nth_append)
  then show ?thesis by (simp add: pending_def)
qed

lemma pending_disarm:
  "length (pending (heap[t := (heap ! t)\<lparr>when := None\<rparr>]) k) \<le> length (pending heap k)"
proof -
  let ?h = "heap[t := (heap ! t)\<lparr>when := None\<rparr>]"
  have "[u \<leftarrow> [0 ..< length heap]. when (?h ! u) \<noteq> None \<and> captured (?h ! u) = k]
        = [u \<leftarrow> [0 ..< length heap]. u \<noteq> t \<and> (when (heap ! u) \<noteq> None \<and> captured (heap ! u) = k)]"
  proof (rule filter_upt_cong)
    fix u assume "u < length heap"
    then show "(when (?h ! u) \<noteq> None \<and> captured (?h ! u) = k)
               = (u \<noteq> t \<and> (when (heap ! u) \<noteq> None \<and> captured (heap ! u) = k))"
      by (cases "u = t") simp_all
  qed
  also have "\<dots> = [u \<leftarrow> pending heap k. u \<noteq> t]"
    by (simp add: pending_def conj_commute conj_left_commute)
  finally have "pending ?h k = [u \<leftarrow> pending heap k. u \<noteq> t]"
    by (simp add: pending_def)
  then show ?thesis by simp
qed

lemma consistent_one:
  assumes "consistent s"
  shows "length (pending (changeHeap s) k) \<le> 1" and "length (pending (updateHeap s) dep) \<le> 1"
proof -
  from assms have l: "linked (changeTimers s) (changeHeap s)" "linked (updateTimers s) (updateHeap s)"
    by (simp_all add: consistent_def)
  show "length (pending (changeHeap s) k) \<le> 1"
    by (simp add: linked_pending [OF l(1)] split: option.split)
  show "length (pending (updateHeap s) dep) \<le> 1"
    by (simp add: linked_pending [OF l(2)] split: option.split)
qed

lemma fired_one:
  assumes "consistent s"
  shows "length (pending (changeHeap (fireChange s t)) k) \<le> 1"
    and "length (pending (updateHeap (fireUpdate s t)) dep) \<le> 1"
proof -
  have "length (pending (changeHeap (fireChange s t)) k) \<le> length (pending (changeHeap s) k)"
    by (simp add: fireChange_def pending_disarm)
  with consistent_one(1) [OF assms, of k]
  show "length (pending (changeHeap (fireChange s t)) k) \<le> 1" by simp
  have "length (pending (updateHeap (fireUpdate s t)) dep) \<le> length (pending (updateHeap s) dep)"
    by (simp add: fireUpdate_def pending_disarm)
  with consistent_one(2) [OF assms, of dep]
  show "length (pending (updateHeap (fireUpdate s t)) dep) \<le> 1" by simp
qed

lemma afterFunc_one:
  assumes l: "linked m heap" and k: "m k = None"
  shows "length (pending (snd (time_AfterFunc now d k heap)) k') \<le> 1"
proof (cases "k' = k")
  case True
  with linked_pending [OF l, of k] k show ?thesis
    by (simp add: time_AfterFunc_def pending_append)
next
  case False
  then show ?thesis
    by (simp add: time_AfterFunc_def pending_append linked_pending [OF l] split: option.split)
qed

section \<open>The claims\<close>

text \<open>
  C1, as the specification states it, fails in two ways. First, the function literal of
  another descriptor's timer panics when listing the workloads fails (main.go 132-134),
  and the process dies with every countdown in it: after notifications of \<^verbatim>\<open>app-config\<close>
  at times 1 and 3 with delay 5, the scan of \<^verbatim>\<open>db-pass\<close> at time 5 panics, and no scan
  of \<^verbatim>\<open>app-config\<close> is ever entered. Second, \<^verbatim>\<open>delayedUpdate\<close> takes no lock: a
  notification of \<^verbatim>\<open>app-config\<close> arrives at time 4 and finds the timer of the
  notification of time 0 in the map; the timer fires at time 5, before the reset, and the
  reset arms it again; a third notification at time 6 finds no entry and makes a second
  timer. The burst 0, 4, 6 then gives three scans, at times 5, 10 and 11, not one at
  time 11.
\<close>

theorem C1_burst_counterexample:
  "timesOf appConfig [(0, dbPass), (1, appConfig), (3, appConfig)] = [1, 3]
   \<and> burst 5 [1, 3]
   \<and> crashed (sleepUntil failsAt5 20
        (run failsAt5 [(0, dbPass), (1, appConfig), (3, appConfig)] (init 5)))
   \<and> settledFor appConfig (sleepUntil failsAt5 20
        (run failsAt5 [(0, dbPass), (1, appConfig), (3, appConfig)] (init 5))) = []
   \<and> burst 5 [0, 4, 6]
   \<and> changeTimers (sleepUntil cluster 4 started) appConfig = Some 0
   \<and> settledFor appConfig
        (sleepUntil cluster 20
          (run cluster [(6, appConfig)]
            (delayedUpdate_then appConfig (changeTimers (sleepUntil cluster 4 started) appConfig)
              (stepChange cluster (sleepUntil cluster 5 started) 0)))) = [5, 10, 11]"
  by code_simp

text \<open>
  C1, amended. Under the serial schedule (every notification is handled as a whole, a
  timer fires at its expiry and its function literal runs at once and as a whole), take
  a live state in which the timer maps agree with the timers and the descriptor has no
  countdown pending, and let every listing of the workloads succeed up to the end of the
  countdown, so that no scan panics before. When the notifications of the descriptor
  arrive at times \<open>t1 < ... < tN\<close> with every gap smaller than the delay, among
  notifications of any other descriptors, \<^verbatim>\<open>findAndQueueDeployments\<close> is entered for
  the descriptor exactly once, at time \<open>tN\<close> plus the delay. And a notification of
  another descriptor, whether it starts or resets that one's countdown, neither fires nor
  resets nor removes the pending countdown of this one.
\<close>

theorem C1_serial_debounce:
  "(consistent s \<longrightarrow> \<not> crashed s \<longrightarrow> changeTimers s d = None \<longrightarrow> sorted (map fst evs) \<longrightarrow>
    (\<forall>e \<in> set evs. clock s \<le> fst e) \<longrightarrow> burst (delay s) (timesOf d evs) \<longrightarrow>
    last (timesOf d evs) + delay s < T \<longrightarrow>
    (\<forall>t \<le> last (timesOf d evs) + delay s. \<exists>items. List a t = Inr items) \<longrightarrow>
      settledFor d (sleepUntil a T (run a evs s)) = settledFor d s @ [last (timesOf d evs) + delay s])
   \<and> (consistent s \<longrightarrow> other \<noteq> d \<longrightarrow> changeTimers s d = Some t \<longrightarrow>
        changeTimers (delayedUpdate other s) d = Some t
        \<and> changeHeap (delayedUpdate other s) ! t = changeHeap s ! t
        \<and> settled (trace (delayedUpdate other s)) = settled (trace s))"
proof (intro conjI impI)
  assume "consistent s" "\<not> crashed s" "changeTimers s d = None"
  then have "idle d s" by (simp add: idle_def)
  moreover assume "sorted (map fst evs)" "\<forall>e \<in> set evs. clock s \<le> fst e"
    "burst (delay s) (timesOf d evs)" "last (timesOf d evs) + delay s < T"
  moreover note \<open>\<not> crashed s\<close>
  moreover assume "\<forall>t \<le> last (timesOf d evs) + delay s. \<exists>items. List a t = Inr items"
  ultimately show "settledFor d (sleepUntil a T (run a evs s))
      = settledFor d s @ [last (timesOf d evs) + delay s]"
    by (rule run_burst)
next
  assume ok: "consistent s" and ne: "other \<noteq> d" and m: "changeTimers s d = Some t"
  from ok m linkedD1 [of "changeTimers s" "changeHeap s" d t]
  have t: "t < length (changeHeap s)" "captured (changeHeap s ! t) = d"
    by (simp_all add: consistent_def)
  show "changeTimers (delayedUpdate other s) d = Some t"
    using m ne
    by (cases "changeTimers s other") (simp_all add: delayedUpdate_absent delayedUpdate_found)
  show "changeHeap (delayedUpdate other s) ! t = changeHeap s ! t"
  proof (cases "changeTimers s other")
    case None
    with t show ?thesis by (simp add: delayedUpdate_absent nth_append)
  next
    case (Some u)
    from ok Some linkedD1 [of "changeTimers s" "changeHeap s" other u]
    have "captured (changeHeap s ! u) = other" by (simp add: consistent_def)
    with t ne have "u \<noteq> t" by auto
    with Some show ?thesis by (simp add: delayedUpdate_found)
  qed
  show "settled (trace (delayedUpdate other s)) = settled (trace s)" by simp
qed

theorem C1_serial_debounce_witness:
  "timesOf appConfig [(0, appConfig), (1, dbPass), (2, appConfig), (9, dbPass)] = [0, 2]
   \<and> burst 5 [0, 2]
   \<and> \<not> crashed (init 5)
   \<and> \<not> (\<exists>t \<in> {.. 7}. \<not> (\<exists>items. List failsFrom14 t = Inr items))
   \<and> settledFor appConfig (sleepUntil failsFrom14 30
          (run failsFrom14 [(0, appConfig), (1, dbPass), (2, appConfig), (9, dbPass)] (init 5))) = [7]
   \<and> crashed (sleepUntil failsFrom14 30
          (run failsFrom14 [(0, appConfig), (1, dbPass), (2, appConfig), (9, dbPass)] (init 5)))
   \<and> changeTimers started appConfig = Some 0
   \<and> changeTimers (delayedUpdate dbPass started) appConfig = Some 0
   \<and> changeHeap (delayedUpdate dbPass started) ! 0 = \<lparr>when = Some 5, captured = appConfig\<rparr>"
proof -
  let ?evs = "[(0::nat, appConfig), (1, dbPass), (2, appConfig), (9, dbPass)]"
  have 1: "consistent (init 5)" by (rule consistent_init)
  have a: "\<not> crashed (init 5)" by (simp add: init_def)
  have 2: "changeTimers (init 5) appConfig = None" by (simp add: init_def)
  have 3: "sorted (map fst ?evs)" by simp
  have 4: "\<forall>e \<in> set ?evs. clock (init 5) \<le> fst e" by (simp add: init_def)
  have ts: "timesOf appConfig ?evs = [0, 2]" by code_simp
  have b: "burst 5 [0, 2]" by code_simp
  have d: "delay (init 5) = 5" by (simp add: init_def)
  have 5: "burst (delay (init 5)) (timesOf appConfig ?evs)" unfolding ts d by (rule b)
  have 6: "last (timesOf appConfig ?evs) + delay (init 5) < 30" unfolding ts d by simp
  have l: "\<forall>t \<le> 7. \<exists>items. List failsFrom14 t = Inr items" by (simp add: failsFrom14_def)
  have 7: "\<forall>t \<le> last (timesOf appConfig ?evs) + delay (init 5). \<exists>items. List failsFrom14 t = Inr items"
    unfolding ts d using l by simp
  have l': "\<not> (\<exists>t \<in> {.. 7}. \<not> (\<exists>items. List failsFrom14 t = Inr items))"
    using l by simp
  have k: "settledFor appConfig (init 5) = []" by (simp add: settledFor_def init_def)
  note th = C1_serial_debounce [where s = "init 5" and d = appConfig and evs = ?evs and T = 30
      and a = failsFrom14,
      THEN conjunct1, rule_format, OF 1 a 2 3 4 [rule_format] 5 6 7 [rule_format], unfolded ts d k]
  have 8: "settledFor appConfig (sleepUntil failsFrom14 30 (run failsFrom14 ?evs (init 5))) = [7]"
    using th by (simp del: run.simps)
  have 9: "crashed (sleepUntil failsFrom14 30 (run failsFrom14 ?evs (init 5)))" by code_simp
  have c: "consistent started"
    unfolding started_def by (rule consistent_delayedUpdate) (rule consistent_init)
  have m: "changeTimers started appConfig = Some 0"
    by (simp add: started_def delayedUpdate_absent init_def)
  have ne: "dbPass \<noteq> appConfig" by (simp add: dbPass_def appConfig_def)
  note fr = C1_serial_debounce [where s = started and d = appConfig and other = dbPass and t = 0,
      THEN conjunct2, rule_format, OF c ne m]
  have h: "changeHeap started ! 0 = \<lparr>when = Some 5, captured = appConfig\<rparr>"
    by (simp add: started_def delayedUpdate_absent init_def)
  from fr have 10: "changeTimers (delayedUpdate dbPass started) appConfig = Some 0" by blast
  from fr h have 11: "changeHeap (delayedUpdate dbPass started) ! 0 = \<lparr>when = Some 5, captured = appConfig\<rparr>"
    by simp
  show ?thesis
    by (intro conjI) (rule ts, rule b, rule a, rule l', rule 8, rule 9, rule m, rule 10, rule 11)
qed

text \<open>
  C2. A call of \<^verbatim>\<open>delayedUpdate\<close> for a descriptor that has a timer in the map resets
  that timer to expire one delay from now, writes a log line and changes nothing else; for
  a descriptor without an entry it makes a timer that expires one delay from now and
  stores it under the descriptor. Such a timer does not fire before its expiry. At its
  expiry, in a live process, it fires once: it is no longer pending and one goroutine is
  started for its function literal. That function literal, whenever it runs, removes the
  entry of the descriptor from the map and enters \<^verbatim>\<open>findAndQueueDeployments\<close> for the
  descriptor exactly once; a goroutine that has run waits no longer.
\<close>

theorem C2_change_debouncer:
  "(changeTimers s change = Some t \<longrightarrow>
      delayedUpdate change s
        = s\<lparr>changeHeap := (changeHeap s)[t := (changeHeap s ! t)\<lparr>when := Some (clock s + delay s)\<rparr>],
            trace := trace s @ [(clock s, Log (''saw change to '' @ Type change @ '' '' @ Name change
                                               @ '', resetting delay''))]\<rparr>)
   \<and> (changeTimers s change = None \<longrightarrow>
      delayedUpdate change s
        = s\<lparr>changeTimers := (changeTimers s)(change \<mapsto> length (changeHeap s)),
            changeHeap := changeHeap s @ [\<lparr>when = Some (clock s + delay s), captured = change\<rparr>],
            trace := trace s @ [(clock s, Log (''saw change to '' @ Type change @ '' '' @ Name change
                                               @ '', starting countdown''))]\<rparr>)
   \<and> (when (changeHeap s ! t) = Some w \<longrightarrow> clock s < w \<longrightarrow> fireChange s t = s)
   \<and> (\<not> crashed s \<longrightarrow> t < length (changeHeap s) \<longrightarrow>
       changeHeap s ! t = \<lparr>when = Some w, captured = change\<rparr> \<longrightarrow> w \<le> clock s \<longrightarrow>
         fireChange s t
           = s\<lparr>changeHeap := (changeHeap s)[t := \<lparr>when = None, captured = change\<rparr>],
               goroutines := goroutines s @ [Go_changeFunc change]\<rparr>
         \<and> fireChange (fireChange s t) t = fireChange s t
         \<and> stepChange a s t
             = findAndQueueDeployments a change
                 (s\<lparr>changeHeap := (changeHeap s)[t := \<lparr>when = None, captured = change\<rparr>],
                    changeTimers := (changeTimers s)(change := None)\<rparr>))
   \<and> runFunc a (Go_changeFunc change) s
       = findAndQueueDeployments a change (s\<lparr>changeTimers := (changeTimers s)(change := None)\<rparr>)
   \<and> changeTimers (runFunc a (Go_changeFunc change) s) change = None
   \<and> settled (trace (runFunc a (Go_changeFunc change) s)) = settled (trace s) @ [(clock s, change)]
   \<and> (\<not> crashed s \<longrightarrow> i < length (goroutines s) \<longrightarrow>
        go a i s = runFunc a (goroutines s ! i)
                     (s\<lparr>goroutines := take i (goroutines s) @ drop (Suc i) (goroutines s)\<rparr>))"
proof -
  have 1: "changeTimers s change = Some t \<longrightarrow>
      delayedUpdate change s
        = s\<lparr>changeHeap := (changeHeap s)[t := (changeHeap s ! t)\<lparr>when := Some (clock s + delay s)\<rparr>],
            trace := trace s @ [(clock s, Log (''saw change to '' @ Type change @ '' '' @ Name change
                                               @ '', resetting delay''))]\<rparr>"
    by (simp add: delayedUpdate_found)
  have 2: "changeTimers s change = None \<longrightarrow>
      delayedUpdate change s
        = s\<lparr>changeTimers := (changeTimers s)(change \<mapsto> length (changeHeap s)),
            changeHeap := changeHeap s @ [\<lparr>when = Some (clock s + delay s), captured = change\<rparr>],
            trace := trace s @ [(clock s, Log (''saw change to '' @ Type change @ '' '' @ Name change
                                               @ '', starting countdown''))]\<rparr>"
    by (simp add: delayedUpdate_absent)
  have 3: "when (changeHeap s ! t) = Some w \<longrightarrow> clock s < w \<longrightarrow> fireChange s t = s"
    by (simp add: fireChange_early)
  have 4: "\<not> crashed s \<longrightarrow> t < length (changeHeap s) \<longrightarrow>
       changeHeap s ! t = \<lparr>when = Some w, captured = change\<rparr> \<longrightarrow> w \<le> clock s \<longrightarrow>
         fireChange s t
           = s\<lparr>changeHeap := (changeHeap s)[t := \<lparr>when = None, captured = change\<rparr>],
               goroutines := goroutines s @ [Go_changeFunc change]\<rparr>
         \<and> fireChange (fireChange s t) t = fireChange s t
         \<and> stepChange a s t
             = findAndQueueDeployments a change
                 (s\<lparr>changeHeap := (changeHeap s)[t := \<lparr>when = None, captured = change\<rparr>],
                    changeTimers := (changeTimers s)(change := None)\<rparr>)"
  proof (intro impI conjI)
    assume h: "\<not> crashed s" "t < length (changeHeap s)"
      "changeHeap s ! t = \<lparr>when = Some w, captured = change\<rparr>" "w \<le> clock s"
    show "fireChange s t
           = s\<lparr>changeHeap := (changeHeap s)[t := \<lparr>when = None, captured = change\<rparr>],
               goroutines := goroutines s @ [Go_changeFunc change]\<rparr>"
      using h by (rule fireChange_due)
    show "fireChange (fireChange s t) t = fireChange s t" by (rule fireChange_once)
    show "stepChange a s t
             = findAndQueueDeployments a change
                 (s\<lparr>changeHeap := (changeHeap s)[t := \<lparr>when = None, captured = change\<rparr>],
                    changeTimers := (changeTimers s)(change := None)\<rparr>)"
      using h by (rule stepChange_due)
  qed
  have 5: "runFunc a (Go_changeFunc change) s
       = findAndQueueDeployments a change (s\<lparr>changeTimers := (changeTimers s)(change := None)\<rparr>)"
    by (simp add: changeFunc_def)
  have 6: "changeTimers (runFunc a (Go_changeFunc change) s) change = None" by simp
  have 7: "settled (trace (runFunc a (Go_changeFunc change) s)) = settled (trace s) @ [(clock s, change)]"
    by simp
  have 8: "\<not> crashed s \<longrightarrow> i < length (goroutines s) \<longrightarrow>
        go a i s = runFunc a (goroutines s ! i)
                     (s\<lparr>goroutines := take i (goroutines s) @ drop (Suc i) (goroutines s)\<rparr>)"
    by (simp add: go_runs)
  show ?thesis
    by (intro conjI) (rule 1, rule 2, rule 3, rule 4, rule 5, rule 6, rule 7, rule 8)
qed

theorem C2_change_debouncer_witness:
  "changeTimers (init 5) appConfig = None
   \<and> started = (init 5)\<lparr>changeTimers := [appConfig \<mapsto> 0],
                        changeHeap := [\<lparr>when = Some 5, captured = appConfig\<rparr>],
                        trace := [(0, Log ''saw change to ConfigMap app-config, starting countdown'')]\<rparr>
   \<and> changeTimers started appConfig = Some 0
   \<and> when (changeHeap (delayedUpdate appConfig (ticks cluster 3 started)) ! 0) = Some 8
   \<and> fireChange (ticks cluster 4 started) 0 = ticks cluster 4 started
   \<and> goroutines (fireChange expiring 0) = [Go_changeFunc appConfig]
   \<and> when (changeHeap (fireChange expiring 0) ! 0) = None
   \<and> changeTimers (fireChange expiring 0) appConfig = Some 0
   \<and> changeTimers (go cluster 0 (fireChange expiring 0)) appConfig = None
   \<and> goroutines (go cluster 0 (fireChange expiring 0)) = []
   \<and> settled (trace (go cluster 0 (fireChange expiring 0))) = [(5, appConfig)]
   \<and> go cluster 0 (fireChange expiring 0) = stepChange cluster expiring 0"
proof -
  have m0: "changeTimers (init 5) appConfig = None"
    by (simp add: init_def)
  have m: "changeTimers started appConfig = Some 0"
    by (simp add: started_def delayedUpdate_absent init_def)
  have c3: "consistent (ticks cluster 3 started)"
    unfolding started_def
    by (rule consistent_ticks, rule consistent_delayedUpdate, rule consistent_init)
  have m3: "changeTimers (ticks cluster 3 started) appConfig = Some 0" by code_simp
  have w4: "when (changeHeap (ticks cluster 4 started) ! 0) = Some 5" "clock (ticks cluster 4 started) < 5"
    by code_simp+
  have e: "\<not> crashed expiring" "0 < length (changeHeap expiring)"
    "changeHeap expiring ! 0 = \<lparr>when = Some 5, captured = appConfig\<rparr>" "5 \<le> clock expiring"
    by code_simp+
  have k: "goroutines expiring = []" "settled (trace expiring) = []" "clock expiring = 5"
    "changeTimers expiring appConfig = Some 0" "length (changeHeap expiring) = 1"
    by code_simp+
  note th = C2_change_debouncer [where s = "init 5" and change = appConfig]
  note reset = C2_change_debouncer [where s = "ticks cluster 3 started" and change = appConfig and t = 0]
  note early = C2_change_debouncer [where s = "ticks cluster 4 started" and t = 0 and w = 5,
      THEN conjunct2, THEN conjunct2, THEN conjunct1, rule_format, OF w4]
  note fire = C2_change_debouncer [where s = expiring and t = 0 and w = 5 and change = appConfig
      and a = cluster,
      THEN conjunct2, THEN conjunct2, THEN conjunct2, THEN conjunct1, rule_format, OF e]
  note f = fire [THEN conjunct1]
  have nc: "\<not> crashed (fireChange expiring 0)" "0 < length (goroutines (fireChange expiring 0))"
    unfolding f using e(1) by simp_all
  note rest = C2_change_debouncer [where s = "fireChange expiring 0" and i = 0 and a = cluster
      and change = appConfig,
      THEN conjunct2, THEN conjunct2, THEN conjunct2, THEN conjunct2]
  note lit = C2_change_debouncer [where a = cluster and change = appConfig
      and s = "(fireChange expiring 0)\<lparr>goroutines := take 0 (goroutines (fireChange expiring 0))
                @ drop (Suc 0) (goroutines (fireChange expiring 0))\<rparr>",
      THEN conjunct2, THEN conjunct2, THEN conjunct2, THEN conjunct2]
  note g = rest [THEN conjunct2, THEN conjunct2, THEN conjunct2, rule_format, OF nc]
  have g0: "goroutines (fireChange expiring 0) ! 0 = Go_changeFunc appConfig"
    unfolding f by (simp add: k)
  from th [THEN conjunct2, THEN conjunct1, rule_format, OF m0]
  have 1: "started = (init 5)\<lparr>changeTimers := [appConfig \<mapsto> 0],
                        changeHeap := [\<lparr>when = Some 5, captured = appConfig\<rparr>],
                        trace := [(0, Log ''saw change to ConfigMap app-config, starting countdown'')]\<rparr>"
    by (simp add: started_def init_def appConfig_def)
  have l3: "linked (changeTimers (ticks cluster 3 started)) (changeHeap (ticks cluster 3 started))"
    using c3 by (simp add: consistent_def)
  from linkedD1 [OF l3 m3] have len: "0 < length (changeHeap (ticks cluster 3 started))" by simp
  have 2: "when (changeHeap (delayedUpdate appConfig (ticks cluster 3 started)) ! 0) = Some 8"
    unfolding reset [THEN conjunct1, rule_format, OF m3]
    using len by (simp add: started_def init_def)
  have 3: "fireChange (ticks cluster 4 started) 0 = ticks cluster 4 started" by (rule early)
  have 4: "goroutines (fireChange expiring 0) = [Go_changeFunc appConfig]"
    unfolding f by (simp add: k)
  have 5: "when (changeHeap (fireChange expiring 0) ! 0) = None"
    unfolding f by (simp add: k)
  have 6: "changeTimers (fireChange expiring 0) appConfig = Some 0"
    unfolding f by (simp add: k)
  have 7: "changeTimers (go cluster 0 (fireChange expiring 0)) appConfig = None"
    unfolding g g0 by (rule lit [THEN conjunct2, THEN conjunct1])
  have 8: "goroutines (go cluster 0 (fireChange expiring 0)) = []"
    by code_simp
  have 9: "settled (trace (go cluster 0 (fireChange expiring 0))) = [(5, appConfig)]"
    unfolding g g0 lit [THEN conjunct2, THEN conjunct2, THEN conjunct1]
    unfolding f by (simp add: k)
  have 10: "go cluster 0 (fireChange expiring 0) = stepChange cluster expiring 0"
    by (simp add: stepChange_def k)
  show ?thesis
    by (intro conjI)
       (rule m0, rule 1, rule m, rule 2, rule 3, rule 4, rule 5, rule 6, rule 7, rule 8, rule 9, rule 10)
qed

text \<open>
  C3, as the specification states it, fails: the program takes no lock, and the lookup in
  a timer map and the reset or insertion that follows it are separate steps. When two
  calls of \<^verbatim>\<open>queueDeployment\<close> for one workload both look the map up before either
  stores its timer, two timers are live for the one key. When the timer found by the
  lookup of \<^verbatim>\<open>delayedUpdate\<close> fires before it is reset, the reset arms it again without
  an entry in the map, and the next notification makes a second live timer for the
  descriptor. The same happens when every call runs as a whole, but one whole call of
  \<^verbatim>\<open>delayedUpdate\<close> runs between the firing of the timer and the run of its function
  literal: the entry is still in the map, so the fired timer is reset, and the function
  literal then deletes the entry of a timer that is live again.
\<close>

theorem C3_no_mutual_exclusion_counterexample:
  "pending (updateHeap
      (queueDeployment_then web (key web) (updateTimers (init 5) (key web))
        (queueDeployment_then web (key web) (updateTimers (init 5) (key web)) (init 5))))
      (key web) = [0, 1]
   \<and> pending (changeHeap
        (delayedUpdate appConfig
          (delayedUpdate_then appConfig (changeTimers (ticks cluster 5 started) appConfig)
            (stepChange cluster (ticks cluster 5 started) 0))))
        appConfig = [0, 1]
   \<and> pending (changeHeap
        (delayedUpdate appConfig
          (go cluster 0
            (delayedUpdate appConfig
              (fireChange (ticks cluster 5 started) 0)))))
        appConfig = [0, 1]"
  by code_simp

text \<open>
  C3, amended. The program uses no lock and no atomic map operation. Under the serial
  schedule, where every call of a debouncer runs as a whole and the function literal of
  a timer runs as a whole at the instant its timer fires, before any other step, the
  timer maps stay consistent with the timers of the runtime over every step of the watch
  loops and of the clock, and at most one live timer exists per key at any instant: in
  the states between the steps, and inside a step also between the firing of a timer and
  the run of its function literal, and between the making of a timer and its storing in
  the map.
\<close>

theorem C3_atomic_steps_keep_one_timer:
  "consistent (init d)
   \<and> (consistent s \<longrightarrow>
        consistent (delayedUpdate change s)
        \<and> consistent (queueDeployment deployment s)
        \<and> consistent (stepChange a s t)
        \<and> consistent (stepUpdate a s t)
        \<and> consistent (tick a s)
        \<and> consistent (run a evs s)
        \<and> length (pending (changeHeap s) change) \<le> 1
        \<and> length (pending (updateHeap s) dep) \<le> 1
        \<and> consistent (configmapEvent event s)
        \<and> consistent (secretEvent event s)
        \<and> consistent (watchLoop configmapEvent events s)
        \<and> consistent (watchLoop secretEvent events s)
        \<and> length (pending (changeHeap (fireChange s t)) change) \<le> 1
        \<and> length (pending (updateHeap (fireUpdate s t)) dep) \<le> 1
        \<and> (changeTimers s change = None \<longrightarrow>
             length (pending (snd (time_AfterFunc (clock s) (delay s) change (changeHeap s))) other) \<le> 1)
        \<and> (updateTimers s dep = None \<longrightarrow>
             length (pending (snd (time_AfterFunc (clock s) (delay s) dep (updateHeap s))) older) \<le> 1))"
proof (intro conjI impI)
  assume ok: "consistent s"
  then have l: "linked (changeTimers s) (changeHeap s)" "linked (updateTimers s) (updateHeap s)"
    by (simp_all add: consistent_def)
  show "length (pending (changeHeap s) change) \<le> 1"
    using ok by (rule consistent_one)
  show "length (pending (updateHeap s) dep) \<le> 1"
    using ok by (rule consistent_one)
  show "length (pending (changeHeap (fireChange s t)) change) \<le> 1"
    using ok by (rule fired_one)
  show "length (pending (updateHeap (fireUpdate s t)) dep) \<le> 1"
    using ok by (rule fired_one)
  show "consistent (watchLoop configmapEvent events s)"
    using consistent_configmapEvent ok by (rule consistent_watchLoop)
  show "consistent (watchLoop secretEvent events s)"
    using consistent_secretEvent ok by (rule consistent_watchLoop)
  {
    assume "changeTimers s change = None"
    with l(1) show "length (pending (snd (time_AfterFunc (clock s) (delay s) change (changeHeap s))) other) \<le> 1"
      by (rule afterFunc_one)
  }
  {
    assume "updateTimers s dep = None"
    with l(2) show "length (pending (snd (time_AfterFunc (clock s) (delay s) dep (updateHeap s))) older) \<le> 1"
      by (rule afterFunc_one)
  }
qed (simp_all add: consistent_init consistent_delayedUpdate consistent_queueDeployment
       consistent_stepChange consistent_stepUpdate consistent_tick consistent_run
       consistent_configmapEvent consistent_secretEvent)

theorem C3_atomic_steps_keep_one_timer_witness:
  "consistent busy
   \<and> pending (changeHeap busy) appConfig = [0]
   \<and> pending (changeHeap busy) dbPass = [1]
   \<and> length (pending (changeHeap busy) appConfig) \<le> 1
   \<and> consistent (tick cluster busy)
   \<and> pending (updateHeap (ticks cluster 3 busy)) webRef = [0]
   \<and> length (pending (updateHeap (ticks cluster 3 busy)) webRef) \<le> 1
   \<and> consistent (watchLoop configmapEvent [modified ''app-config'', modified ''other''] busy)
   \<and> pending (changeHeap (watchLoop configmapEvent [modified ''app-config'', modified ''other''] busy))
        appConfig = [0]
   \<and> length (pending (changeHeap (fireChange (ticks cluster 5 busy) 0)) appConfig) \<le> 1
   \<and> changeTimers (init 5) appConfig = None
   \<and> length (pending (snd (time_AfterFunc (clock (init 5)) (delay (init 5)) appConfig
                              (changeHeap (init 5)))) appConfig) \<le> 1
   \<and> updateTimers busy webRef = None
   \<and> length (pending (snd (time_AfterFunc (clock busy) (delay busy) webRef (updateHeap busy))) webRef) \<le> 1"
proof -
  note th = C3_atomic_steps_keep_one_timer [where d = 5 and s = "init 5" and a = cluster
      and evs = "[(0, appConfig), (2, dbPass), (3, appConfig), (6, appConfig)]"]
  from th have c0: "consistent (init 5)" by (rule conjunct1)
  from th [THEN conjunct2, rule_format, OF c0] have c: "consistent busy"
    unfolding busy_def by blast
  note at = C3_atomic_steps_keep_one_timer [where d = 5 and s = busy and a = cluster
      and change = appConfig and dep = webRef and older = webRef
      and events = "[modified ''app-config'', modified ''other'']",
      THEN conjunct2, rule_format, OF c]
  have c3: "consistent (ticks cluster 3 busy)" using c by (rule consistent_ticks)
  note later = C3_atomic_steps_keep_one_timer [where d = 5 and s = "ticks cluster 3 busy"
      and dep = webRef, THEN conjunct2, rule_format, OF c3]
  have c5: "consistent (ticks cluster 5 busy)" using c by (rule consistent_ticks)
  note fired = C3_atomic_steps_keep_one_timer [where d = 5 and s = "ticks cluster 5 busy"
      and change = appConfig and t = 0, THEN conjunct2, rule_format, OF c5]
  note made = C3_atomic_steps_keep_one_timer [where d = 5 and s = "init 5"
      and change = appConfig and other = appConfig, THEN conjunct2, rule_format, OF c0]
  have 1: "pending (changeHeap busy) appConfig = [0]" by code_simp
  have 2: "pending (changeHeap busy) dbPass = [1]" by code_simp
  have 3: "pending (updateHeap (ticks cluster 3 busy)) webRef = [0]" by code_simp
  from at have 4: "length (pending (changeHeap busy) appConfig) \<le> 1" by blast
  from at have 5: "consistent (tick cluster busy)" by blast
  from later have 6: "length (pending (updateHeap (ticks cluster 3 busy)) webRef) \<le> 1" by blast
  from at have 7: "consistent (watchLoop configmapEvent [modified ''app-config'', modified ''other''] busy)"
    by blast
  have 8: "pending (changeHeap (watchLoop configmapEvent [modified ''app-config'', modified ''other''] busy))
        appConfig = [0]"
    by code_simp
  from fired have 9: "length (pending (changeHeap (fireChange (ticks cluster 5 busy) 0)) appConfig) \<le> 1"
    by blast
  have m0: "changeTimers (init 5) appConfig = None" by (simp add: init_def)
  from made m0 have 10: "length (pending (snd (time_AfterFunc (clock (init 5)) (delay (init 5)) appConfig
                              (changeHeap (init 5)))) appConfig) \<le> 1"
    by blast
  have u0: "updateTimers busy webRef = None" by code_simp
  from at u0
  have 11: "length (pending (snd (time_AfterFunc (clock busy) (delay busy) webRef (updateHeap busy))) webRef) \<le> 1"
    by blast
  show ?thesis
    by (intro conjI)
       (rule c, rule 1, rule 2, rule 4, rule 5, rule 3, rule 6, rule 7, rule 8, rule 9, rule m0,
        rule 10, rule u0, rule 11)
qed

text \<open>
  C4, as the specification states it, fails: a failure to list the workloads is not
  logged and survived. The process panics, and a change notified afterwards is never
  settled.
\<close>

theorem C4_list_failure_counterexample:
  "crashed (findAndQueueDeployments unreachable appConfig (init 5))
   \<and> trace (findAndQueueDeployments unreachable appConfig (init 5))
       = [(0, Call_findAndQueueDeployments appConfig), (0, Api_List), (0, Panic ''connection refused'')]
   \<and> settled (trace (sleepUntil unreachable 30
        (run unreachable [(10, appConfig)] (findAndQueueDeployments unreachable appConfig (init 5)))))
       = [(0, appConfig)]"
proof -
  have 1: "List unreachable (clock (init 5)) = Inl (Error ''connection refused'')"
    by (simp add: unreachable_def)
  have 2: "crashed (findAndQueueDeployments unreachable appConfig (init 5))"
    by (simp add: findAndQueueDeployments_fails [OF 1])
  have 3: "trace (findAndQueueDeployments unreachable appConfig (init 5))
       = [(0, Call_findAndQueueDeployments appConfig), (0, Api_List), (0, Panic ''connection refused'')]"
    unfolding findAndQueueDeployments_fails [OF 1] by (simp add: init_def)
  from crashed_quiet [OF 2, of unreachable 30 "[(10, appConfig)]"] 2 3 show ?thesis
    by (simp del: run.simps)
qed

text \<open>
  C4, amended. When listing the workloads fails during dependency resolution for a
  settled change, the process panics with the error: nothing is queued for this
  occurrence, nothing is retried, and the process is dead, so that whatever is notified
  later and however long one waits, it does nothing more.
\<close>

theorem C4_list_failure_panics:
  assumes "List a (clock s) = Inl err"
  shows "findAndQueueDeployments a change s
           = s\<lparr>trace := trace s @ [(clock s, Call_findAndQueueDeployments change), (clock s, Api_List),
                                   (clock s, Panic (message err))],
               crashed := True\<rparr>
         \<and> trace (sleepUntil a T (run a evs (findAndQueueDeployments a change s)))
             = trace (findAndQueueDeployments a change s)"
proof -
  have "crashed (findAndQueueDeployments a change s)"
    by (simp add: findAndQueueDeployments_fails [OF assms])
  from crashed_quiet [OF this] findAndQueueDeployments_fails [OF assms]
  show ?thesis by simp
qed

theorem C4_list_failure_panics_witness:
  "List unreachable (clock (init 5)) = Inl (Error ''connection refused'')
   \<and> updateTimers (findAndQueueDeployments unreachable appConfig (init 5)) = Map.empty
   \<and> updateHeap (findAndQueueDeployments unreachable appConfig (init 5)) = []
   \<and> crashed (findAndQueueDeployments unreachable appConfig (init 5))
   \<and> trace (sleepUntil unreachable 30
        (run unreachable [(10, appConfig)] (findAndQueueDeployments unreachable appConfig (init 5))))
       = [(0, Call_findAndQueueDeployments appConfig), (0, Api_List), (0, Panic ''connection refused'')]"
proof -
  have 1: "List unreachable (clock (init 5)) = Inl (Error ''connection refused'')"
    by (simp add: unreachable_def)
  let ?s = "findAndQueueDeployments unreachable appConfig (init 5)"
  note th = C4_list_failure_panics [OF 1, of appConfig 30 "[(10, appConfig)]"]
  have eq: "?s = (init 5)\<lparr>trace := trace (init 5) @
                [(clock (init 5), Call_findAndQueueDeployments appConfig), (clock (init 5), Api_List),
                 (clock (init 5), Panic (message (Error ''connection refused'')))],
               crashed := True\<rparr>"
    by (rule th [THEN conjunct1])
  have quiet: "trace (sleepUntil unreachable 30 (run unreachable [(10, appConfig)] ?s)) = trace ?s"
    by (rule th [THEN conjunct2])
  have 2: "updateTimers ?s = Map.empty" "updateHeap ?s = []" "crashed ?s"
    "trace ?s = [(0, Call_findAndQueueDeployments appConfig), (0, Api_List), (0, Panic ''connection refused'')]"
    unfolding eq by (simp_all add: init_def)
  from 1 2 quiet show ?thesis by (simp del: run.simps)
qed

text \<open>
  C5. The dependency scan visits the environment sources of the main containers in a fixed
  order, the whole-bundle imports of a container before its single-key references, and
  stops at the first source that refers to the changed object; a workload is queued
  exactly when some source holds a reference of the kind and the exact name of the
  change, and then once; a workload without such a reference is not queued.
\<close>

theorem C5_dependency_scan:
  "fst (containerLoop change (Containers deployment))
     = upToFirst (refers change) (scanOrder (Containers deployment))
   \<and> snd (containerLoop change (Containers deployment)) = depends change deployment
   \<and> deploymentLoop change items s
       = foldl (\<lambda>s d. queueDeployment d s) s (filter (depends change) items)
   \<and> (List a (clock s) = Inr items \<longrightarrow>
        findAndQueueDeployments a change s
          = foldl (\<lambda>s d. queueDeployment d s)
              (emit Api_List (emit (Call_findAndQueueDeployments change) s))
              (filter (depends change) items))"
  by (simp add: containerLoop_eq depends_def deploymentLoop_eq findAndQueueDeployments_def)

theorem C5_dependency_scan_witness:
  "fst (containerLoop appConfig (Containers web))
     = [Import \<lparr>ConfigMapRef = Some ''app-config'', SecretRef = None\<rparr>]
   \<and> depends appConfig web
   \<and> \<not> depends \<lparr>Type = ''ConfigMap'', Name = ''app-config-2''\<rparr> web
   \<and> \<not> depends \<lparr>Type = ''Secret'', Name = ''app-config''\<rparr> web
   \<and> \<not> depends appConfig job
   \<and> List cluster (clock (init 5)) = Inr [web, job]
   \<and> findAndQueueDeployments cluster appConfig (init 5)
       = queueDeployment web (emit Api_List (emit (Call_findAndQueueDeployments appConfig) (init 5)))"
  using C5_dependency_scan [of appConfig web "[web, job]" "init 5" cluster]
  by (simp add: depends_def refers_def scanOrder_def web_def job_def appConfig_def cluster_def)

text \<open>
  C6. \<^verbatim>\<open>queueDeployment\<close> looks the workload up under the pair of its name and its
  resource version. A call whose pair has a timer in the map resets that timer to expire
  one delay from now; a call for the same name with another resource version, not yet in
  the map, leaves the pending timer of the older version as it is and makes a second
  timer under the new pair. A timer does not fire before its expiry. At its expiry, in a
  live process, it fires once: it is no longer pending and one goroutine is started for
  its function literal, while the map and every other timer stay as they are. That
  function literal, whenever it runs, removes the entry of its pair from the map, leaves
  every other entry and every timer as they are, and enters \<^verbatim>\<open>patchDeployment\<close> for its
  pair exactly once.
\<close>

theorem C6_update_debouncer:
  "queueDeployment deployment s
     = queueDeployment_then deployment (key deployment) (updateTimers s (key deployment)) s
   \<and> key deployment
       = \<lparr>dep_Name = obj_Name deployment, dep_ResourceVersion = obj_ResourceVersion deployment\<rparr>
   \<and> (updateTimers s (key deployment) = Some t \<longrightarrow>
        queueDeployment deployment s
          = s\<lparr>updateHeap := (updateHeap s)[t := (updateHeap s ! t)\<lparr>when := Some (clock s + delay s)\<rparr>],
              trace := trace s @ [(clock s, Log (''resetting timer on queued update to deployment ''
                                                 @ obj_Name deployment))]\<rparr>)
   \<and> (updateTimers s (key deployment) = None \<longrightarrow>
        queueDeployment deployment s
          = s\<lparr>updateTimers := (updateTimers s)(key deployment \<mapsto> length (updateHeap s)),
              updateHeap := updateHeap s @ [\<lparr>when = Some (clock s + delay s), captured = key deployment\<rparr>],
              trace := trace s @ [(clock s, Log (''queuing update to deployment '' @ obj_Name deployment))]\<rparr>)
   \<and> (consistent s \<longrightarrow> obj_Name newer = obj_Name older \<longrightarrow>
       obj_ResourceVersion newer \<noteq> obj_ResourceVersion older \<longrightarrow>
       updateTimers s (key older) = Some t \<longrightarrow> updateTimers s (key newer) = None \<longrightarrow>
         updateTimers (queueDeployment newer s) (key older) = Some t
         \<and> updateHeap (queueDeployment newer s) ! t = updateHeap s ! t
         \<and> updateTimers (queueDeployment newer s) (key newer) = Some (length (updateHeap s))
         \<and> t \<noteq> length (updateHeap s)
         \<and> when (updateHeap (queueDeployment newer s) ! length (updateHeap s)) = Some (clock s + delay s))
   \<and> (when (updateHeap s ! t) = Some w \<longrightarrow> clock s < w \<longrightarrow> fireUpdate s t = s)
   \<and> (\<not> crashed s \<longrightarrow> t < length (updateHeap s) \<longrightarrow>
       updateHeap s ! t = \<lparr>when = Some w, captured = dep\<rparr> \<longrightarrow> w \<le> clock s \<longrightarrow>
         fireUpdate s t
           = s\<lparr>updateHeap := (updateHeap s)[t := \<lparr>when = None, captured = dep\<rparr>],
               goroutines := goroutines s @ [Go_updateFunc dep]\<rparr>
         \<and> fireUpdate (fireUpdate s t) t = fireUpdate s t
         \<and> stepUpdate a s t
             = patchDeployment a dep
                 (s\<lparr>updateHeap := (updateHeap s)[t := \<lparr>when = None, captured = dep\<rparr>],
                    updateTimers := (updateTimers s)(dep := None)\<rparr>))
   \<and> updateTimers (fireUpdate s t) = updateTimers s
   \<and> (u \<noteq> t \<longrightarrow> updateHeap (fireUpdate s t) ! u = updateHeap s ! u)
   \<and> runFunc a (Go_updateFunc dep) s
       = patchDeployment a dep (s\<lparr>updateTimers := (updateTimers s)(dep := None)\<rparr>)
   \<and> updateTimers (runFunc a (Go_updateFunc dep) s) = (updateTimers s)(dep := None)
   \<and> updateHeap (runFunc a (Go_updateFunc dep) s) = updateHeap s
   \<and> patched (trace (runFunc a (Go_updateFunc dep) s)) = patched (trace s) @ [(clock s, dep)]"
proof -
  have 1: "queueDeployment deployment s
     = queueDeployment_then deployment (key deployment) (updateTimers s (key deployment)) s"
    by (simp add: queueDeployment_def key_def Let_def)
  have 2: "key deployment
       = \<lparr>dep_Name = obj_Name deployment, dep_ResourceVersion = obj_ResourceVersion deployment\<rparr>"
    by (simp add: key_def)
  have 3: "updateTimers s (key deployment) = Some t \<longrightarrow>
        queueDeployment deployment s
          = s\<lparr>updateHeap := (updateHeap s)[t := (updateHeap s ! t)\<lparr>when := Some (clock s + delay s)\<rparr>],
              trace := trace s @ [(clock s, Log (''resetting timer on queued update to deployment ''
                                                 @ obj_Name deployment))]\<rparr>"
    by (simp add: queueDeployment_found)
  have 4: "updateTimers s (key deployment) = None \<longrightarrow>
        queueDeployment deployment s
          = s\<lparr>updateTimers := (updateTimers s)(key deployment \<mapsto> length (updateHeap s)),
              updateHeap := updateHeap s @ [\<lparr>when = Some (clock s + delay s), captured = key deployment\<rparr>],
              trace := trace s @ [(clock s, Log (''queuing update to deployment '' @ obj_Name deployment))]\<rparr>"
    by (simp add: queueDeployment_absent)
  have 5: "consistent s \<longrightarrow> obj_Name newer = obj_Name older \<longrightarrow>
       obj_ResourceVersion newer \<noteq> obj_ResourceVersion older \<longrightarrow>
       updateTimers s (key older) = Some t \<longrightarrow> updateTimers s (key newer) = None \<longrightarrow>
         updateTimers (queueDeployment newer s) (key older) = Some t
         \<and> updateHeap (queueDeployment newer s) ! t = updateHeap s ! t
         \<and> updateTimers (queueDeployment newer s) (key newer) = Some (length (updateHeap s))
         \<and> t \<noteq> length (updateHeap s)
         \<and> when (updateHeap (queueDeployment newer s) ! length (updateHeap s)) = Some (clock s + delay s)"
  proof (intro impI)
    assume ok: "consistent s" and "obj_Name newer = obj_Name older"
      and v: "obj_ResourceVersion newer \<noteq> obj_ResourceVersion older"
      and old: "updateTimers s (key older) = Some t" and new: "updateTimers s (key newer) = None"
    from v have ne: "key older \<noteq> key newer" by (auto simp: key_def)
    from ok old linkedD1 [of "updateTimers s" "updateHeap s" "key older" t]
    have t: "t < length (updateHeap s)" by (simp add: consistent_def)
    with old ne
    show "updateTimers (queueDeployment newer s) (key older) = Some t
         \<and> updateHeap (queueDeployment newer s) ! t = updateHeap s ! t
         \<and> updateTimers (queueDeployment newer s) (key newer) = Some (length (updateHeap s))
         \<and> t \<noteq> length (updateHeap s)
         \<and> when (updateHeap (queueDeployment newer s) ! length (updateHeap s)) = Some (clock s + delay s)"
      by (simp add: queueDeployment_absent [OF new] nth_append)
  qed
  have 6: "when (updateHeap s ! t) = Some w \<longrightarrow> clock s < w \<longrightarrow> fireUpdate s t = s"
    by (simp add: fireUpdate_early)
  have 7: "\<not> crashed s \<longrightarrow> t < length (updateHeap s) \<longrightarrow>
       updateHeap s ! t = \<lparr>when = Some w, captured = dep\<rparr> \<longrightarrow> w \<le> clock s \<longrightarrow>
         fireUpdate s t
           = s\<lparr>updateHeap := (updateHeap s)[t := \<lparr>when = None, captured = dep\<rparr>],
               goroutines := goroutines s @ [Go_updateFunc dep]\<rparr>
         \<and> fireUpdate (fireUpdate s t) t = fireUpdate s t
         \<and> stepUpdate a s t
             = patchDeployment a dep
                 (s\<lparr>updateHeap := (updateHeap s)[t := \<lparr>when = None, captured = dep\<rparr>],
                    updateTimers := (updateTimers s)(dep := None)\<rparr>)"
  proof (intro impI conjI)
    assume h: "\<not> crashed s" "t < length (updateHeap s)"
      "updateHeap s ! t = \<lparr>when = Some w, captured = dep\<rparr>" "w \<le> clock s"
    show "fireUpdate s t
           = s\<lparr>updateHeap := (updateHeap s)[t := \<lparr>when = None, captured = dep\<rparr>],
               goroutines := goroutines s @ [Go_updateFunc dep]\<rparr>"
      using h by (rule fireUpdate_due)
    show "fireUpdate (fireUpdate s t) t = fireUpdate s t" by (rule fireUpdate_once)
    show "stepUpdate a s t
             = patchDeployment a dep
                 (s\<lparr>updateHeap := (updateHeap s)[t := \<lparr>when = None, captured = dep\<rparr>],
                    updateTimers := (updateTimers s)(dep := None)\<rparr>)"
      using h by (rule stepUpdate_due)
  qed
  have 8: "updateTimers (fireUpdate s t) = updateTimers s" by (rule fireUpdate_others)
  have 9: "u \<noteq> t \<longrightarrow> updateHeap (fireUpdate s t) ! u = updateHeap s ! u"
    by (simp add: fireUpdate_others)
  have 10: "runFunc a (Go_updateFunc dep) s
       = patchDeployment a dep (s\<lparr>updateTimers := (updateTimers s)(dep := None)\<rparr>)"
    by (simp add: updateFunc_def)
  have 11: "updateTimers (runFunc a (Go_updateFunc dep) s) = (updateTimers s)(dep := None)" by simp
  have 12: "updateHeap (runFunc a (Go_updateFunc dep) s) = updateHeap s" by simp
  have 13: "patched (trace (runFunc a (Go_updateFunc dep) s)) = patched (trace s) @ [(clock s, dep)]"
    by simp
  show ?thesis
    by (intro conjI)
       (rule 1, rule 2, rule 3, rule 4, rule 5, rule 6, rule 7, rule 8, rule 9, rule 10, rule 11,
        rule 12, rule 13)
qed

theorem C6_update_debouncer_witness:
  "key web = webRef \<and> key web42 = webRef42
   \<and> updateTimers once webRef = Some 0 \<and> updateTimers once webRef42 = None
   \<and> updateTimers twice webRef = Some 0 \<and> updateTimers twice webRef42 = Some 1
   \<and> when (updateHeap twice ! 0) = Some 5 \<and> when (updateHeap twice ! 1) = Some 7
   \<and> when (updateHeap (queueDeployment web twice) ! 0) = Some 7
   \<and> fireUpdate (ticks cluster 2 twice) 0 = ticks cluster 2 twice
   \<and> goroutines (fireUpdate dueUpdate 0) = [Go_updateFunc webRef]
   \<and> when (updateHeap (fireUpdate dueUpdate 0) ! 0) = None
   \<and> when (updateHeap (fireUpdate dueUpdate 0) ! 1) = Some 7
   \<and> updateTimers (fireUpdate dueUpdate 0) webRef = Some 0
   \<and> updateTimers (go cluster 0 (fireUpdate dueUpdate 0)) webRef = None
   \<and> updateTimers (go cluster 0 (fireUpdate dueUpdate 0)) webRef42 = Some 1
   \<and> when (updateHeap (go cluster 0 (fireUpdate dueUpdate 0)) ! 1) = Some 7
   \<and> patched (trace (go cluster 0 (fireUpdate dueUpdate 0))) = [(5, webRef)]
   \<and> patched (trace (ticks cluster 10 twice)) = [(5, webRef), (7, webRef42)]"
proof -
  have k: "key web = webRef" "key web42 = webRef42"
    by (simp_all add: key_def web_def web42_def webRef_def webRef42_def)
  have c0: "consistent (queueDeployment web (init 5))"
    by (rule consistent_queueDeployment) (rule consistent_init)
  have c1: "consistent once"
    unfolding once_def using c0 by (rule consistent_ticks)
  have c2: "consistent twice"
    unfolding twice_def using c1 by (rule consistent_queueDeployment)
  have n: "obj_Name web42 = obj_Name web" "obj_ResourceVersion web42 \<noteq> obj_ResourceVersion web"
    by (simp_all add: web42_def web_def)
  have m1: "updateTimers once (key web) = Some 0" "updateTimers once (key web42) = None"
    unfolding k by code_simp+
  have s: "clock once = 2" "delay once = 5" "length (updateHeap once) = 1"
    "when (updateHeap once ! 0) = Some 5" "clock twice = 2" "delay twice = 5"
    by code_simp+
  note sep = C6_update_debouncer [where s = once and newer = web42 and older = web and t = 0,
      THEN conjunct2, THEN conjunct2, THEN conjunct2, THEN conjunct2, THEN conjunct1,
      rule_format, OF c1 n m1, folded twice_def, unfolded k s]
  from sep have m2: "updateTimers twice webRef = Some 0" "updateTimers twice webRef42 = Some 1"
    and w2: "when (updateHeap twice ! 0) = Some 5" "when (updateHeap twice ! 1) = Some 7"
    by (simp_all add: s)
  have len: "0 < length (updateHeap twice)"
    using linkedD1 [of "updateTimers twice" "updateHeap twice" webRef 0] c2 m2(1)
    by (simp add: consistent_def)
  have 1: "when (updateHeap (queueDeployment web twice) ! 0) = Some 7"
    unfolding C6_update_debouncer [where s = twice and deployment = web and t = 0,
      THEN conjunct2, THEN conjunct2, THEN conjunct1, rule_format, unfolded k, OF m2(1)]
    using len by (simp add: s)
  have w4: "when (updateHeap (ticks cluster 2 twice) ! 0) = Some 5" "clock (ticks cluster 2 twice) < 5"
    by code_simp+
  note 2 = C6_update_debouncer [where s = "ticks cluster 2 twice" and t = 0 and w = 5,
      THEN conjunct2, THEN conjunct2, THEN conjunct2, THEN conjunct2, THEN conjunct2,
      THEN conjunct1, rule_format, OF w4]
  have e: "\<not> crashed dueUpdate" "0 < length (updateHeap dueUpdate)"
    "updateHeap dueUpdate ! 0 = \<lparr>when = Some 5, captured = webRef\<rparr>" "5 \<le> clock dueUpdate"
    by code_simp+
  have d: "goroutines dueUpdate = []" "patched (trace dueUpdate) = []" "clock dueUpdate = 5"
    "updateTimers dueUpdate webRef = Some 0" "updateTimers dueUpdate webRef42 = Some 1"
    "length (updateHeap dueUpdate) = 2" "when (updateHeap dueUpdate ! 1) = Some 7"
    by code_simp+
  note fire = C6_update_debouncer [where s = dueUpdate and t = 0 and w = 5 and dep = webRef and a = cluster,
      THEN conjunct2, THEN conjunct2, THEN conjunct2, THEN conjunct2, THEN conjunct2,
      THEN conjunct2, THEN conjunct1, rule_format, OF e]
  note f = fire [THEN conjunct1]
  note others = C6_update_debouncer [where s = dueUpdate and t = 0 and u = 1,
      THEN conjunct2, THEN conjunct2, THEN conjunct2, THEN conjunct2, THEN conjunct2,
      THEN conjunct2, THEN conjunct2]
  note lit = C6_update_debouncer [where a = cluster and dep = webRef
      and s = "(fireUpdate dueUpdate 0)\<lparr>goroutines := take 0 (goroutines (fireUpdate dueUpdate 0))
                @ drop (Suc 0) (goroutines (fireUpdate dueUpdate 0))\<rparr>",
      THEN conjunct2, THEN conjunct2, THEN conjunct2, THEN conjunct2, THEN conjunct2,
      THEN conjunct2, THEN conjunct2, THEN conjunct2, THEN conjunct2, THEN conjunct2]
  have 3: "goroutines (fireUpdate dueUpdate 0) = [Go_updateFunc webRef]"
    unfolding f by (simp add: d)
  have 4: "when (updateHeap (fireUpdate dueUpdate 0) ! 0) = None"
    unfolding f by (simp add: d)
  have 5: "when (updateHeap (fireUpdate dueUpdate 0) ! 1) = Some 7"
    unfolding others [THEN conjunct2, THEN conjunct1, rule_format, OF one_neq_zero] by (rule d)
  have 6: "updateTimers (fireUpdate dueUpdate 0) webRef = Some 0"
    unfolding others [THEN conjunct1] by (rule d)
  have n6: "updateTimers (fireUpdate dueUpdate 0) webRef42 = Some 1"
    unfolding others [THEN conjunct1] by (rule d)
  have nc: "\<not> crashed (fireUpdate dueUpdate 0)" "0 < length (goroutines (fireUpdate dueUpdate 0))"
    unfolding f using e(1) by simp_all
  have g: "go cluster 0 (fireUpdate dueUpdate 0)
      = runFunc cluster (Go_updateFunc webRef)
          ((fireUpdate dueUpdate 0)\<lparr>goroutines := take 0 (goroutines (fireUpdate dueUpdate 0))
                @ drop (Suc 0) (goroutines (fireUpdate dueUpdate 0))\<rparr>)"
    using nc by (simp add: go_runs 3)
  have ne: "webRef42 \<noteq> webRef" by (simp add: webRef_def webRef42_def)
  have 7: "updateTimers (go cluster 0 (fireUpdate dueUpdate 0)) webRef = None"
    unfolding g lit [THEN conjunct1] by simp
  have 8: "updateTimers (go cluster 0 (fireUpdate dueUpdate 0)) webRef42 = Some 1"
    unfolding g lit [THEN conjunct1] using ne n6 by simp
  have 9: "when (updateHeap (go cluster 0 (fireUpdate dueUpdate 0)) ! 1) = Some 7"
    unfolding g lit [THEN conjunct2, THEN conjunct1] using 5 by simp
  have 10: "patched (trace (go cluster 0 (fireUpdate dueUpdate 0))) = [(5, webRef)]"
    unfolding g lit [THEN conjunct2, THEN conjunct2]
    unfolding f by (simp add: d)
  have 11: "patched (trace (ticks cluster 10 twice)) = [(5, webRef), (7, webRef42)]"
    by code_simp
  from m1 have m1': "updateTimers once webRef = Some 0" "updateTimers once webRef42 = None"
    by (simp_all add: k)
  show ?thesis
    by (intro conjI)
       (rule k(1), rule k(2), rule m1'(1), rule m1'(2), rule m2(1), rule m2(2), rule w2(1), rule w2(2),
        rule 1, rule 2, rule 3, rule 4, rule 5, rule 6, rule 7, rule 8, rule 9, rule 10, rule 11)
qed

text \<open>
  C7. What \<^verbatim>\<open>patchDeployment\<close> serialises as the target is the fetched object with the
  annotation \<^verbatim>\<open>configmaster/last.update\<close> set to the current time in the metadata of the
  workload and in the metadata of its pod template, the map being made when it is nil:
  every other annotation and every other field is as fetched. The patch submitted is the
  two-way merge patch that the library computes from the serialised baseline and that
  target. Touching an object that carries the timestamp already only replaces its value.
\<close>

theorem C7_patch_touches_only_timestamp:
  "touch now dep = Inr (stamped now dep)
   \<and> entries (Annotations (stamped now dep)) ''configmaster/last.update'' = Some now
   \<and> entries (TemplateAnnotations (stamped now dep)) ''configmaster/last.update'' = Some now
   \<and> (\<forall>k. k \<noteq> ''configmaster/last.update'' \<longrightarrow>
         entries (Annotations (stamped now dep)) k = entries (Annotations dep) k
         \<and> entries (TemplateAnnotations (stamped now dep)) k = entries (TemplateAnnotations dep) k)
   \<and> obj_Name (stamped now dep) = obj_Name dep
   \<and> obj_ResourceVersion (stamped now dep) = obj_ResourceVersion dep
   \<and> Containers (stamped now dep) = Containers dep
   \<and> InitContainers (stamped now dep) = InitContainers dep
   \<and> Other (stamped now dep) = Other dep
   \<and> touch later (stamped now dep) = Inr (stamped later dep)
   \<and> (Get a (clock s) (dep_Name deployment) (dep_ResourceVersion deployment) = Inr dep \<longrightarrow>
       Marshal a dep = Inr current \<longrightarrow>
       Marshal a (stamped (RFC3339 a (clock s)) dep) = Inr updated \<longrightarrow>
       CreateTwoWayMergePatch a current updated = Inr patch \<longrightarrow>
       (\<exists>line. patchDeployment a deployment s
          = s\<lparr>trace := trace s @
                [(clock s, Call_patchDeployment deployment),
                 (clock s, Api_Get (dep_Name deployment) (dep_ResourceVersion deployment)),
                 (clock s, Api_Patch (obj_Name dep) patch),
                 (clock s, Log line)]\<rparr>))"
proof -
  have 1: "touch later (stamped now dep) = Inr (stamped later dep)"
    by (simp add: touch_stamped stamped_twice)
  have 2: "Get a (clock s) (dep_Name deployment) (dep_ResourceVersion deployment) = Inr dep \<longrightarrow>
       Marshal a dep = Inr current \<longrightarrow>
       Marshal a (stamped (RFC3339 a (clock s)) dep) = Inr updated \<longrightarrow>
       CreateTwoWayMergePatch a current updated = Inr patch \<longrightarrow>
       (\<exists>line. patchDeployment a deployment s
          = s\<lparr>trace := trace s @
                [(clock s, Call_patchDeployment deployment),
                 (clock s, Api_Get (dep_Name deployment) (dep_ResourceVersion deployment)),
                 (clock s, Api_Patch (obj_Name dep) patch),
                 (clock s, Log line)]\<rparr>)"
    by (cases "Patch a (clock s) (obj_Name dep) patch")
       (auto simp add: patch_submit_fails patch_succeeds entered_def emit_def)
  have 3: "entries (Annotations (stamped now dep)) ''configmaster/last.update'' = Some now"
    "entries (TemplateAnnotations (stamped now dep)) ''configmaster/last.update'' = Some now"
    "\<forall>k. k \<noteq> ''configmaster/last.update'' \<longrightarrow>
         entries (Annotations (stamped now dep)) k = entries (Annotations dep) k
         \<and> entries (TemplateAnnotations (stamped now dep)) k = entries (TemplateAnnotations dep) k"
    by (simp_all add: stamped_def entries_def)
  have 4: "obj_Name (stamped now dep) = obj_Name dep"
    "obj_ResourceVersion (stamped now dep) = obj_ResourceVersion dep"
    "Containers (stamped now dep) = Containers dep"
    "InitContainers (stamped now dep) = InitContainers dep"
    "Other (stamped now dep) = Other dep"
    by (simp_all add: stamped_def)
  show ?thesis
    by (intro conjI)
       (rule touch_stamped, rule 3(1), rule 3(2), rule 3(3), rule 4(1), rule 4(2), rule 4(3),
        rule 4(4), rule 4(5), rule 1, rule 2)
qed

theorem C7_patch_touches_only_timestamp_witness:
  "touch ''2018-01-01T00:00:00Z'' web
     = Inr (web\<lparr>Annotations := Some [''configmaster/last.update'' \<mapsto> ''2018-01-01T00:00:00Z''],
                 TemplateAnnotations := Some [''team'' \<mapsto> ''shop'',
                    ''configmaster/last.update'' \<mapsto> ''2018-01-01T00:00:00Z'']\<rparr>)
   \<and> entries (TemplateAnnotations (stamped ''2018-01-01T00:00:00Z'' web)) ''team'' = Some ''shop''
   \<and> (\<exists>line. patchDeployment cluster webRef (init 5)
          = (init 5)\<lparr>trace := [(0, Call_patchDeployment webRef), (0, Api_Get ''web'' ''41''),
                 (0, Api_Patch ''web'' ''web never>web 2018-01-01T00:00:00Z''), (0, Log line)]\<rparr>)"
proof -
  have i: "clock (init 5) = 0" "trace (init 5) = []"
    by (simp_all add: init_def)
  have n: "obj_Name web = ''web''" "dep_Name webRef = ''web''" "dep_ResourceVersion webRef = ''41''"
    by (simp_all add: web_def webRef_def)
  have h: "Get cluster (clock (init 5)) (dep_Name webRef) (dep_ResourceVersion webRef) = Inr web"
    "Marshal cluster web = Inr ''web never''"
    "Marshal cluster (stamped (RFC3339 cluster (clock (init 5))) web) = Inr ''web 2018-01-01T00:00:00Z''"
    "CreateTwoWayMergePatch cluster ''web never'' ''web 2018-01-01T00:00:00Z''
       = Inr ''web never>web 2018-01-01T00:00:00Z''"
    by (simp_all add: cluster_def webRef_def web_def stamped_def entries_def)
  have st: "stamped ''2018-01-01T00:00:00Z'' web
     = web\<lparr>Annotations := Some [''configmaster/last.update'' \<mapsto> ''2018-01-01T00:00:00Z''],
            TemplateAnnotations := Some [''team'' \<mapsto> ''shop'',
                    ''configmaster/last.update'' \<mapsto> ''2018-01-01T00:00:00Z'']\<rparr>"
    by (simp add: stamped_def entries_def web_def)
  have k: "''team'' \<noteq> ''configmaster/last.update''" by simp
  have t: "entries (TemplateAnnotations web) ''team'' = Some ''shop''"
    by (simp add: entries_def web_def)
  note th = C7_patch_touches_only_timestamp [where now = "''2018-01-01T00:00:00Z''" and dep = web
      and a = cluster and s = "init 5" and deployment = webRef and current = "''web never''"
      and updated = "''web 2018-01-01T00:00:00Z''" and patch = "''web never>web 2018-01-01T00:00:00Z''"]
  have a: "touch ''2018-01-01T00:00:00Z'' web = Inr (stamped ''2018-01-01T00:00:00Z'' web)"
    by (rule th [THEN conjunct1])
  note others = th [THEN conjunct2, THEN conjunct2, THEN conjunct2, THEN conjunct1, rule_format, OF k]
  from others t
  have b: "entries (TemplateAnnotations (stamped ''2018-01-01T00:00:00Z'' web)) ''team'' = Some ''shop''"
    by simp
  note last = th [THEN conjunct2, THEN conjunct2, THEN conjunct2, THEN conjunct2, THEN conjunct2,
      THEN conjunct2, THEN conjunct2, THEN conjunct2, THEN conjunct2, THEN conjunct2, rule_format, OF h]
  from last have c: "\<exists>line. patchDeployment cluster webRef (init 5)
          = (init 5)\<lparr>trace := [(0, Call_patchDeployment webRef), (0, Api_Get ''web'' ''41''),
                 (0, Api_Patch ''web'' ''web never>web 2018-01-01T00:00:00Z''), (0, Log line)]\<rparr>"
    by (simp add: i n)
  from a b c st show ?thesis by simp
qed

text \<open>
  C8. Whichever step of \<^verbatim>\<open>patchDeployment\<close> fails (fetching the workload, serialising
  the fetched or the touched object, computing the patch, submitting it), the function
  writes one log line that names the workload and returns: no later step runs, nothing is
  retried, no timer is touched and the process stays alive. A patch is submitted only
  when the four steps before the submission have succeeded.
\<close>

theorem C8_patch_failures:
  "crashed (patchDeployment a deployment s) = crashed s
   \<and> (Get a (clock s) (dep_Name deployment) (dep_ResourceVersion deployment) = Inl err \<longrightarrow>
        patchDeployment a deployment s
          = s\<lparr>trace := trace s @
                [(clock s, Call_patchDeployment deployment),
                 (clock s, Api_Get (dep_Name deployment) (dep_ResourceVersion deployment)),
                 (clock s, Log (''error retrieving deployment '' @ dep_Name deployment @ '': '' @ message err))]\<rparr>)
   \<and> (Get a (clock s) (dep_Name deployment) (dep_ResourceVersion deployment) = Inr dep \<longrightarrow>
       Marshal a dep = Inl err \<longrightarrow>
        patchDeployment a deployment s
          = s\<lparr>trace := trace s @
                [(clock s, Call_patchDeployment deployment),
                 (clock s, Api_Get (dep_Name deployment) (dep_ResourceVersion deployment)),
                 (clock s, Log (''error marshaling deployment '' @ obj_Name dep @ '': '' @ message err))]\<rparr>)
   \<and> (Get a (clock s) (dep_Name deployment) (dep_ResourceVersion deployment) = Inr dep \<longrightarrow>
       Marshal a dep = Inr current \<longrightarrow>
       Marshal a (stamped (RFC3339 a (clock s)) dep) = Inl err \<longrightarrow>
        patchDeployment a deployment s
          = s\<lparr>trace := trace s @
                [(clock s, Call_patchDeployment deployment),
                 (clock s, Api_Get (dep_Name deployment) (dep_ResourceVersion deployment)),
                 (clock s, Log (''error marshaling deployment '' @ obj_Name dep @ '': '' @ message err))]\<rparr>)
   \<and> (Get a (clock s) (dep_Name deployment) (dep_ResourceVersion deployment) = Inr dep \<longrightarrow>
       Marshal a dep = Inr current \<longrightarrow>
       Marshal a (stamped (RFC3339 a (clock s)) dep) = Inr updated \<longrightarrow>
       CreateTwoWayMergePatch a current updated = Inl err \<longrightarrow>
        patchDeployment a deployment s
          = s\<lparr>trace := trace s @
                [(clock s, Call_patchDeployment deployment),
                 (clock s, Api_Get (dep_Name deployment) (dep_ResourceVersion deployment)),
                 (clock s, Log (''error generating patch for deployment '' @ obj_Name dep @ '': '' @ message err))]\<rparr>)
   \<and> (Get a (clock s) (dep_Name deployment) (dep_ResourceVersion deployment) = Inr dep \<longrightarrow>
       Marshal a dep = Inr current \<longrightarrow>
       Marshal a (stamped (RFC3339 a (clock s)) dep) = Inr updated \<longrightarrow>
       CreateTwoWayMergePatch a current updated = Inr patch \<longrightarrow>
       Patch a (clock s) (obj_Name dep) patch = Inl err \<longrightarrow>
        patchDeployment a deployment s
          = s\<lparr>trace := trace s @
                [(clock s, Call_patchDeployment deployment),
                 (clock s, Api_Get (dep_Name deployment) (dep_ResourceVersion deployment)),
                 (clock s, Api_Patch (obj_Name dep) patch),
                 (clock s, Log (''error patching deployment '' @ obj_Name dep @ '': '' @ message err))]\<rparr>)"
proof -
  have 0: "crashed (patchDeployment a deployment s) = crashed s" by simp
  have 1: "Get a (clock s) (dep_Name deployment) (dep_ResourceVersion deployment) = Inl err \<longrightarrow>
        patchDeployment a deployment s
          = s\<lparr>trace := trace s @
                [(clock s, Call_patchDeployment deployment),
                 (clock s, Api_Get (dep_Name deployment) (dep_ResourceVersion deployment)),
                 (clock s, Log (''error retrieving deployment '' @ dep_Name deployment @ '': '' @ message err))]\<rparr>"
    by (simp add: patch_get_fails entered_def emit_def)
  have 2: "Get a (clock s) (dep_Name deployment) (dep_ResourceVersion deployment) = Inr dep \<longrightarrow>
       Marshal a dep = Inl err \<longrightarrow>
        patchDeployment a deployment s
          = s\<lparr>trace := trace s @
                [(clock s, Call_patchDeployment deployment),
                 (clock s, Api_Get (dep_Name deployment) (dep_ResourceVersion deployment)),
                 (clock s, Log (''error marshaling deployment '' @ obj_Name dep @ '': '' @ message err))]\<rparr>"
    by (simp add: patch_marshal1_fails entered_def emit_def)
  have 3: "Get a (clock s) (dep_Name deployment) (dep_ResourceVersion deployment) = Inr dep \<longrightarrow>
       Marshal a dep = Inr current \<longrightarrow>
       Marshal a (stamped (RFC3339 a (clock s)) dep) = Inl err \<longrightarrow>
        patchDeployment a deployment s
          = s\<lparr>trace := trace s @
                [(clock s, Call_patchDeployment deployment),
                 (clock s, Api_Get (dep_Name deployment) (dep_ResourceVersion deployment)),
                 (clock s, Log (''error marshaling deployment '' @ obj_Name dep @ '': '' @ message err))]\<rparr>"
    by (simp add: patch_marshal2_fails entered_def emit_def)
  have 4: "Get a (clock s) (dep_Name deployment) (dep_ResourceVersion deployment) = Inr dep \<longrightarrow>
       Marshal a dep = Inr current \<longrightarrow>
       Marshal a (stamped (RFC3339 a (clock s)) dep) = Inr updated \<longrightarrow>
       CreateTwoWayMergePatch a current updated = Inl err \<longrightarrow>
        patchDeployment a deployment s
          = s\<lparr>trace := trace s @
                [(clock s, Call_patchDeployment deployment),
                 (clock s, Api_Get (dep_Name deployment) (dep_ResourceVersion deployment)),
                 (clock s, Log (''error generating patch for deployment '' @ obj_Name dep @ '': '' @ message err))]\<rparr>"
    by (simp add: patch_create_fails entered_def emit_def)
  have 5: "Get a (clock s) (dep_Name deployment) (dep_ResourceVersion deployment) = Inr dep \<longrightarrow>
       Marshal a dep = Inr current \<longrightarrow>
       Marshal a (stamped (RFC3339 a (clock s)) dep) = Inr updated \<longrightarrow>
       CreateTwoWayMergePatch a current updated = Inr patch \<longrightarrow>
       Patch a (clock s) (obj_Name dep) patch = Inl err \<longrightarrow>
        patchDeployment a deployment s
          = s\<lparr>trace := trace s @
                [(clock s, Call_patchDeployment deployment),
                 (clock s, Api_Get (dep_Name deployment) (dep_ResourceVersion deployment)),
                 (clock s, Api_Patch (obj_Name dep) patch),
                 (clock s, Log (''error patching deployment '' @ obj_Name dep @ '': '' @ message err))]\<rparr>"
    by (simp add: patch_submit_fails entered_def emit_def)
  show ?thesis
    by (intro conjI) (rule 0, rule 1, rule 2, rule 3, rule 4, rule 5)
qed

theorem C8_patch_failures_witness:
  "patchDeployment cluster gone (init 5)
     = (init 5)\<lparr>trace := [(0, Call_patchDeployment gone), (0, Api_Get ''gone'' ''1''),
                           (0, Log ''error retrieving deployment gone: not found'')]\<rparr>
   \<and> patchDeployment marshalFails webRef (init 5)
     = (init 5)\<lparr>trace := [(0, Call_patchDeployment webRef), (0, Api_Get ''web'' ''41''),
                           (0, Log ''error marshaling deployment web: unsupported type'')]\<rparr>
   \<and> patchDeployment marshalFailsLater webRef (init 5)
     = (init 5)\<lparr>trace := [(0, Call_patchDeployment webRef), (0, Api_Get ''web'' ''41''),
                           (0, Log ''error marshaling deployment web: unsupported value'')]\<rparr>
   \<and> patchDeployment createFails webRef (init 5)
     = (init 5)\<lparr>trace := [(0, Call_patchDeployment webRef), (0, Api_Get ''web'' ''41''),
                           (0, Log ''error generating patch for deployment web: invalid json'')]\<rparr>
   \<and> patchDeployment patchFails webRef (init 5)
     = (init 5)\<lparr>trace := [(0, Call_patchDeployment webRef), (0, Api_Get ''web'' ''41''),
                           (0, Api_Patch ''web'' ''web never>web 2018-01-01T00:00:00Z''),
                           (0, Log ''error patching deployment web: conflict'')]\<rparr>
   \<and> \<not> crashed (patchDeployment cluster gone (init 5))"
proof -
  have i: "clock (init 5) = 0" "trace (init 5) = []" "\<not> crashed (init 5)"
    by (simp_all add: init_def)
  have n: "obj_Name web = ''web''" "dep_Name gone = ''gone''" "dep_ResourceVersion gone = ''1''"
    "dep_Name webRef = ''web''" "dep_ResourceVersion webRef = ''41''"
    by (simp_all add: web_def gone_def webRef_def)
  have 1: "Get cluster (clock (init 5)) (dep_Name gone) (dep_ResourceVersion gone) = Inl (Error ''not found'')"
    by (simp add: cluster_def gone_def)
  have 2: "Get marshalFails (clock (init 5)) (dep_Name webRef) (dep_ResourceVersion webRef) = Inr web"
    "Marshal marshalFails web = Inl (Error ''unsupported type'')"
    by (simp_all add: marshalFails_def cluster_def webRef_def)
  have 3: "Get marshalFailsLater (clock (init 5)) (dep_Name webRef) (dep_ResourceVersion webRef) = Inr web"
    "Marshal marshalFailsLater web = Inr ''web''"
    "Marshal marshalFailsLater (stamped (RFC3339 marshalFailsLater (clock (init 5))) web)
       = Inl (Error ''unsupported value'')"
    by (simp_all add: marshalFailsLater_def cluster_def webRef_def web_def stamped_def entries_def)
  have 4: "Get createFails (clock (init 5)) (dep_Name webRef) (dep_ResourceVersion webRef) = Inr web"
    "Marshal createFails web = Inr ''web never''"
    "Marshal createFails (stamped (RFC3339 createFails (clock (init 5))) web) = Inr ''web 2018-01-01T00:00:00Z''"
    "CreateTwoWayMergePatch createFails ''web never'' ''web 2018-01-01T00:00:00Z'' = Inl (Error ''invalid json'')"
    by (simp_all add: createFails_def cluster_def webRef_def web_def stamped_def entries_def)
  have 5: "Get patchFails (clock (init 5)) (dep_Name webRef) (dep_ResourceVersion webRef) = Inr web"
    "Marshal patchFails web = Inr ''web never''"
    "Marshal patchFails (stamped (RFC3339 patchFails (clock (init 5))) web) = Inr ''web 2018-01-01T00:00:00Z''"
    "CreateTwoWayMergePatch patchFails ''web never'' ''web 2018-01-01T00:00:00Z''
       = Inr ''web never>web 2018-01-01T00:00:00Z''"
    "Patch patchFails (clock (init 5)) (obj_Name web) ''web never>web 2018-01-01T00:00:00Z''
       = Inl (Error ''conflict'')"
    by (simp_all add: patchFails_def cluster_def webRef_def web_def stamped_def entries_def)
  note t1 = C8_patch_failures [where a = cluster and deployment = gone and s = "init 5"
      and err = "Error ''not found''"]
  note t2 = C8_patch_failures [where a = marshalFails and deployment = webRef and s = "init 5"
      and err = "Error ''unsupported type''" and dep = web]
  note t3 = C8_patch_failures [where a = marshalFailsLater and deployment = webRef and s = "init 5"
      and err = "Error ''unsupported value''" and dep = web and current = "''web''"]
  note t4 = C8_patch_failures [where a = createFails and deployment = webRef and s = "init 5"
      and err = "Error ''invalid json''" and dep = web and current = "''web never''"
      and updated = "''web 2018-01-01T00:00:00Z''"]
  note t5 = C8_patch_failures [where a = patchFails and deployment = webRef and s = "init 5"
      and err = "Error ''conflict''" and dep = web and current = "''web never''"
      and updated = "''web 2018-01-01T00:00:00Z''" and patch = "''web never>web 2018-01-01T00:00:00Z''"]
  have a: "patchDeployment cluster gone (init 5)
     = (init 5)\<lparr>trace := [(0, Call_patchDeployment gone), (0, Api_Get ''gone'' ''1''),
                           (0, Log ''error retrieving deployment gone: not found'')]\<rparr>"
    unfolding t1 [THEN conjunct2, THEN conjunct1, rule_format, OF 1] by (simp add: i n)
  have b: "patchDeployment marshalFails webRef (init 5)
     = (init 5)\<lparr>trace := [(0, Call_patchDeployment webRef), (0, Api_Get ''web'' ''41''),
                           (0, Log ''error marshaling deployment web: unsupported type'')]\<rparr>"
    unfolding t2 [THEN conjunct2, THEN conjunct2, THEN conjunct1, rule_format, OF 2] by (simp add: i n)
  have c: "patchDeployment marshalFailsLater webRef (init 5)
     = (init 5)\<lparr>trace := [(0, Call_patchDeployment webRef), (0, Api_Get ''web'' ''41''),
                           (0, Log ''error marshaling deployment web: unsupported value'')]\<rparr>"
    unfolding t3 [THEN conjunct2, THEN conjunct2, THEN conjunct2, THEN conjunct1, rule_format, OF 3]
    by (simp add: i n)
  have d: "patchDeployment createFails webRef (init 5)
     = (init 5)\<lparr>trace := [(0, Call_patchDeployment webRef), (0, Api_Get ''web'' ''41''),
                           (0, Log ''error generating patch for deployment web: invalid json'')]\<rparr>"
    unfolding t4 [THEN conjunct2, THEN conjunct2, THEN conjunct2, THEN conjunct2, THEN conjunct1,
        rule_format, OF 4]
    by (simp add: i n)
  have e: "patchDeployment patchFails webRef (init 5)
     = (init 5)\<lparr>trace := [(0, Call_patchDeployment webRef), (0, Api_Get ''web'' ''41''),
                           (0, Api_Patch ''web'' ''web never>web 2018-01-01T00:00:00Z''),
                           (0, Log ''error patching deployment web: conflict'')]\<rparr>"
    unfolding t5 [THEN conjunct2, THEN conjunct2, THEN conjunct2, THEN conjunct2, THEN conjunct2,
        rule_format, OF 5]
    by (simp add: i n)
  have f: "\<not> crashed (patchDeployment cluster gone (init 5))"
    unfolding t1 [THEN conjunct1] by (rule i(3))
  show ?thesis
    by (intro conjI) (rule a, rule b, rule c, rule d, rule e, rule f)
qed

text \<open>
  C9. The watch loops handle only events of type MODIFIED and drop the flag of the type
  assertion. An object of the watched type gives the descriptor of its kind and name to
  the change debouncer; any other object makes the assertion yield nil, and reading the
  name through it kills the process. So a loop survives its events exactly when every
  MODIFIED event carries an object of the watched type.
\<close>

theorem C9_type_assertion_unchecked:
  "(Object event = ConfigMap_object name \<longrightarrow>
      configmapEvent event s = delayedUpdate \<lparr>Type = ''ConfigMap'', Name = name\<rparr> s)
   \<and> ((\<forall>n. Object event \<noteq> ConfigMap_object n) \<longrightarrow>
      configmapEvent event s
        = (emit (Panic ''invalid memory address or nil pointer dereference'') s)\<lparr>crashed := True\<rparr>)
   \<and> (Object event = Secret_object name \<longrightarrow>
      secretEvent event s = delayedUpdate \<lparr>Type = ''Secret'', Name = name\<rparr> s)
   \<and> ((\<forall>n. Object event \<noteq> Secret_object n) \<longrightarrow>
      secretEvent event s
        = (emit (Panic ''invalid memory address or nil pointer dereference'') s)\<lparr>crashed := True\<rparr>)
   \<and> (\<not> crashed s \<longrightarrow>
        crashed (watchLoop configmapEvent events s)
          = (\<exists>e \<in> set events. event_Type e = ''MODIFIED'' \<and> (\<forall>n. Object e \<noteq> ConfigMap_object n)))
   \<and> (\<not> crashed s \<longrightarrow>
        crashed (watchLoop secretEvent events s)
          = (\<exists>e \<in> set events. event_Type e = ''MODIFIED'' \<and> (\<forall>n. Object e \<noteq> Secret_object n)))"
proof -
  have cm: "crashed (configmapEvent e s') = (crashed s' \<or> (\<forall>n. Object e \<noteq> ConfigMap_object n))" for e s'
    by (cases "Object e") (simp_all add: configmapEvent_def)
  have sc: "crashed (secretEvent e s') = (crashed s' \<or> (\<forall>n. Object e \<noteq> Secret_object n))" for e s'
    by (cases "Object e") (simp_all add: secretEvent_def)
  have loop1: "crashed (watchLoop configmapEvent events s')
      = (crashed s' \<or> (\<exists>e \<in> set events. event_Type e = ''MODIFIED'' \<and> (\<forall>n. Object e \<noteq> ConfigMap_object n)))" for s'
    by (induction events arbitrary: s') (auto simp: filterFunc_def cm)
  have loop2: "crashed (watchLoop secretEvent events s')
      = (crashed s' \<or> (\<exists>e \<in> set events. event_Type e = ''MODIFIED'' \<and> (\<forall>n. Object e \<noteq> Secret_object n)))" for s'
    by (induction events arbitrary: s') (auto simp: filterFunc_def sc)
  have a: "Object event = ConfigMap_object name \<longrightarrow>
      configmapEvent event s = delayedUpdate \<lparr>Type = ''ConfigMap'', Name = name\<rparr> s"
    by (simp add: configmapEvent_def)
  have b: "(\<forall>n. Object event \<noteq> ConfigMap_object n) \<longrightarrow>
      configmapEvent event s
        = (emit (Panic ''invalid memory address or nil pointer dereference'') s)\<lparr>crashed := True\<rparr>"
    by (cases "Object event") (simp_all add: configmapEvent_def)
  have c: "Object event = Secret_object name \<longrightarrow>
      secretEvent event s = delayedUpdate \<lparr>Type = ''Secret'', Name = name\<rparr> s"
    by (simp add: secretEvent_def)
  have d: "(\<forall>n. Object event \<noteq> Secret_object n) \<longrightarrow>
      secretEvent event s
        = (emit (Panic ''invalid memory address or nil pointer dereference'') s)\<lparr>crashed := True\<rparr>"
    by (cases "Object event") (simp_all add: secretEvent_def)
  from a b c d loop1 [of s] loop2 [of s] show ?thesis by simp
qed

theorem C9_type_assertion_unchecked_witness:
  "configmapEvent (modified ''app-config'') (init 5) = delayedUpdate appConfig (init 5)
   \<and> crashed (configmapEvent statusEvent (init 5))
   \<and> crashed (secretEvent (modified ''app-config'') (init 5))
   \<and> \<not> crashed (watchLoop configmapEvent [modified ''a'', \<lparr>event_Type = ''DELETED'', Object = Other_object\<rparr>] (init 5))
   \<and> crashed (watchLoop configmapEvent [modified ''a'', statusEvent] (init 5))"
  using C9_type_assertion_unchecked [of "modified ''app-config''" "''app-config''" "init 5" "[modified ''a'', \<lparr>event_Type = ''DELETED'', Object = Other_object\<rparr>]"]
    C9_type_assertion_unchecked [of statusEvent "''x''" "init 5" "[modified ''a'', statusEvent]"]
  by (simp add: modified_def statusEvent_def appConfig_def init_def)

text \<open>
  C10. Only the main containers of the pod template are scanned: a workload whose only
  reference to the changed object sits in an init container is not matched and not
  queued, and what the init containers hold never changes the outcome of the scan.
\<close>

theorem C10_init_containers_not_scanned:
  assumes "\<exists>src \<in> set (scanOrder (InitContainers deployment)). refers change src"
    and "\<forall>src \<in> set (scanOrder (Containers deployment)). \<not> refers change src"
  shows "\<not> snd (containerLoop change (Containers deployment))
         \<and> deploymentLoop change [deployment] s = s
         \<and> (List a (clock s) = Inr [deployment] \<longrightarrow>
              findAndQueueDeployments a change s
                = emit Api_List (emit (Call_findAndQueueDeployments change) s))
         \<and> containerLoop change (Containers (deployment\<lparr>InitContainers := others\<rparr>))
             = containerLoop change (Containers deployment)"
  using assms(2) by (simp add: containerLoop_eq findAndQueueDeployments_def)

theorem C10_init_containers_not_scanned_witness:
  "(\<exists>src \<in> set (scanOrder (InitContainers job)). refers appConfig src)
   \<and> \<not> (\<exists>src \<in> set (scanOrder (Containers job)). refers appConfig src)
   \<and> \<not> snd (containerLoop appConfig (Containers job))
   \<and> deploymentLoop appConfig [job] (init 5) = init 5"
proof -
  have 1: "\<exists>src \<in> set (scanOrder (InitContainers job)). refers appConfig src"
    by (simp add: scanOrder_def job_def refers_def appConfig_def)
  have 2: "\<forall>src \<in> set (scanOrder (Containers job)). \<not> refers appConfig src"
    by (simp add: scanOrder_def job_def refers_def appConfig_def)
  from C10_init_containers_not_scanned [OF 1 2, of "init 5"] 1 2 show ?thesis by simp
qed

end
